theory Spec2Isabelle
  imports Complex_Main "HOL-Library.Char_ord" "HOL-Library.List_Lexorder"
begin

section \<open>Python strings\<close>

text \<open>
  Python strings are modelled as \<open>string\<close>. The file names, area codes and category
  labels of the data sets are ASCII, where \<open>str.lower\<close> maps \<open>A\<close>..\<open>Z\<close> to
  \<open>a\<close>..\<open>z\<close> and leaves every other character alone. Strings are ordered
  lexicographically by character code, as Python orders them.
\<close>

definition lower_char :: "char \<Rightarrow> char" where
  "lower_char c =
     (case map_of (zip ''ABCDEFGHIJKLMNOPQRSTUVWXYZ'' ''abcdefghijklmnopqrstuvwxyz'') c of
        Some d \<Rightarrow> d
      | None \<Rightarrow> c)"

definition lower :: "string \<Rightarrow> string" where
  "lower s = map lower_char s"

definition startswith :: "string \<Rightarrow> string \<Rightarrow> bool" where
  "startswith s p = (take (length p) s = p)"

definition endswith :: "string \<Rightarrow> string \<Rightarrow> bool" where
  "endswith s p = (length p \<le> length s \<and> drop (length s - length p) s = p)"

text \<open>\<open>contains p s\<close> is Python's \<open>p in s\<close>: \<open>p\<close> occurs in \<open>s\<close> as a substring.\<close>

fun contains :: "string \<Rightarrow> string \<Rightarrow> bool" where
  "contains p [] = (p = [])"
| "contains p (c # cs) = (startswith (c # cs) p \<or> contains p cs)"

section \<open>Exceptions\<close>

text \<open>
  The exceptions the modelled functions raise: \<open>RuntimeError\<close> (no shape file in the
  archive), \<open>KeyError\<close> (a column missing from a data frame) and \<open>ValueError\<close>
  (\<open>int()\<close> applied to something that is not an integer).
\<close>

datatype error = RuntimeError | KeyError | ValueError

section \<open>The boundary archive: \<open>_search_shp_member\<close>\<close>

text \<open>
  \<^verbatim>\<open>
  candidates = [m for m in zf.namelist()
                if m.lower().endswith(".shp") and "msoa" in m.lower() and "london" in m.lower()]
  if not candidates:
      raise RuntimeError("MSOA shapefile not found in boundary ZIP")
  chosen = min(candidates, key=len)
  \<close>
  The archive is its member list \<open>zf.namelist()\<close>.
\<close>

definition is_candidate :: "string \<Rightarrow> bool" where
  "is_candidate m =
     (endswith (lower m) ''.shp'' \<and> contains ''msoa'' (lower m) \<and> contains ''london'' (lower m))"

text \<open>Python's \<open>min(xs, key=len)\<close> on a non-empty list: the first item of least length.\<close>

fun min_by_len :: "string \<Rightarrow> string list \<Rightarrow> string" where
  "min_by_len best [] = best"
| "min_by_len best (m # ms) = min_by_len (if length m < length best then m else best) ms"

definition search_shp_member :: "string list \<Rightarrow> error + string" where
  "search_shp_member namelist =
     (let candidates = filter is_candidate namelist in
      case candidates of
        [] \<Rightarrow> Inl RuntimeError
      | c # cs \<Rightarrow> Inr (min_by_len c cs))"

section \<open>Floating-point cells\<close>

text \<open>
  A numeric cell of a data frame is a finite number, an infinity or NaN (which pandas
  also uses for a missing value). Finite values are modelled as exact rationals; the
  properties below depend on the order of the values and on the special values only.
  \<open>isna\<close> is pandas' test for a missing cell: an infinity is not missing.
  \<open>pf_le\<close> and \<open>pf_ge\<close> are the comparisons \<open><=\<close> and \<open>>=\<close> of IEEE 754: every
  comparison with NaN is false.
\<close>

datatype pyfloat = Fin rat | PInf | NInf | NaN

fun isna :: "pyfloat \<Rightarrow> bool" where
  "isna NaN = True"
| "isna _ = False"

fun pf_le :: "pyfloat \<Rightarrow> pyfloat \<Rightarrow> bool" where
  "pf_le NaN _ = False"
| "pf_le _ NaN = False"
| "pf_le NInf _ = True"
| "pf_le _ PInf = True"
| "pf_le (Fin a) (Fin b) = (a \<le> b)"
| "pf_le (Fin a) NInf = False"
| "pf_le PInf _ = False"

definition pf_ge :: "pyfloat \<Rightarrow> pyfloat \<Rightarrow> bool" where
  "pf_ge a b = pf_le b a"

text \<open>
  \<open>true_div\<close> is the division \<open>/\<close> of two integer columns, cell by cell: pandas returns
  a float column, and a zero denominator raises nothing: it gives an infinity with the
  sign of the numerator, or NaN for \<open>0 / 0\<close>.
\<close>

definition true_div :: "int \<Rightarrow> int \<Rightarrow> pyfloat" where
  "true_div n d =
     (if d = 0 then (if 0 < n then PInf else if n < 0 then NInf else NaN)
      else Fin (of_int n / of_int d))"

section \<open>Data frames: grouping and merging\<close>

text \<open>
  A table keyed by area code is a list of rows, each a key with its payload.
  \<open>groupby(key)[value].sum().reset_index()\<close> gives one row per key, the keys in
  ascending order, each with the sum of the values of its group. It is modelled as a
  pass over the rows that accumulates the sums in a list kept sorted by key.

  The value column is an integer column of type int64: its cells lie between \<open>-2^63\<close>
  and \<open>2^63 - 1\<close>, and the sum is taken in int64, where an addition that leaves this
  range wraps around. \<open>wrap64\<close> reduces an integer to the int64 range
  (9223372036854775808 is \<open>2^63\<close> and 18446744073709551616 is \<open>2^64\<close>) and changes
  nothing within it; \<open>int64_add\<close> is the addition of two int64 cells. Every group
  starts from the accumulator 0.
\<close>

definition wrap64 :: "int \<Rightarrow> int" where
  "wrap64 x = (x + 9223372036854775808) mod 18446744073709551616 - 9223372036854775808"

definition int64_add :: "int \<Rightarrow> int \<Rightarrow> int" where
  "int64_add a b = wrap64 (a + b)"

fun add_to_group :: "'k::linorder \<Rightarrow> int \<Rightarrow> ('k \<times> int) list \<Rightarrow> ('k \<times> int) list" where
  "add_to_group k v [] = [(k, int64_add 0 v)]"
| "add_to_group k v ((a, s) # gs) =
     (if k < a then (k, int64_add 0 v) # (a, s) # gs
      else if k = a then (a, int64_add s v) # gs
      else (a, s) # add_to_group k v gs)"

definition groupby_sum :: "('k::linorder \<times> int) list \<Rightarrow> ('k \<times> int) list" where
  "groupby_sum kvs = foldl (\<lambda>gs (k, v). add_to_group k v gs) [] kvs"

text \<open>
  \<open>matches k r\<close> are the payloads of the rows of \<open>r\<close> with key \<open>k\<close>, in the order of
  \<open>r\<close>. \<open>l.merge(r, on=key)\<close> is the inner join: for every row of \<open>l\<close>, in the order
  of \<open>l\<close>, one row per matching row of \<open>r\<close>. \<open>l.merge(r, on=key, how="left")\<close> keeps
  a row of \<open>l\<close> that has no match, once, with every column of \<open>r\<close> missing (\<open>None\<close>).
  Keys are compared by equality of the strings.
\<close>

definition matches :: "'k \<Rightarrow> ('k \<times> 'b) list \<Rightarrow> 'b list" where
  "matches k r = map snd (filter (\<lambda>(k', _). k' = k) r)"

definition merge_inner :: "('k \<times> 'a) list \<Rightarrow> ('k \<times> 'b) list \<Rightarrow> ('k \<times> 'a \<times> 'b) list" where
  "merge_inner l r = concat (map (\<lambda>(k, a). map (\<lambda>b. (k, a, b)) (matches k r)) l)"

definition left_rows :: "'k \<Rightarrow> 'a \<Rightarrow> ('k \<times> 'b) list \<Rightarrow> ('k \<times> 'a \<times> 'b option) list" where
  "left_rows k a r =
     (case matches k r of
        [] \<Rightarrow> [(k, a, None)]
      | bs \<Rightarrow> map (\<lambda>b. (k, a, Some b)) bs)"

definition merge_left :: "('k \<times> 'a) list \<Rightarrow> ('k \<times> 'b) list \<Rightarrow> ('k \<times> 'a \<times> 'b option) list" where
  "merge_left l r = concat (map (\<lambda>(k, a). left_rows k a r) l)"

section \<open>The local census file: \<open>process_census_data\<close>\<close>

text \<open>
  The census file has one row per area and ethnic category, with the columns
  \<open>Middle layer Super Output Areas Code\<close>, \<open>Ethnic group (20 categories)\<close> and
  \<open>Observation\<close> (a count). The result has the columns \<open>msoa\<close>, \<open>black_count\<close>
  and \<open>population\<close>. The \<open>Observation\<close> column is an int64 column: a cell is an
  integer in the int64 range, and the two sums are int64 sums (\<open>groupby_sum\<close>), which
  wrap around.
  \<^verbatim>\<open>
  msoa_data = df[df[geo_col].astype(str).str.startswith("E02")].copy()
  total = msoa_data.groupby(geo_col)[value_col].sum().reset_index()
  black_mask = msoa_data[ethnic_col].str.startswith(
      "Black, Black British, Black Welsh, Caribbean or African:")
  black = msoa_data[black_mask].copy()
  black_sum = black.groupby(geo_col)[value_col].sum().reset_index()
  result = black_sum.merge(total, on=geo_col)
  \<close>
\<close>

record census_row =
  geo_code :: string
  ethnic_group :: string
  observation :: int

record pop_row =
  msoa :: string
  black_count :: int
  population :: int

definition black_prefix :: string where
  "black_prefix = ''Black, Black British, Black Welsh, Caribbean or African:''"

definition is_msoa :: "census_row \<Rightarrow> bool" where
  "is_msoa r = startswith (geo_code r) ''E02''"

definition is_black :: "census_row \<Rightarrow> bool" where
  "is_black r = startswith (ethnic_group r) black_prefix"

definition geo_value :: "census_row \<Rightarrow> string \<times> int" where
  "geo_value r = (geo_code r, observation r)"

definition mk_pop_row :: "string \<times> int \<times> int \<Rightarrow> pop_row" where
  "mk_pop_row = (\<lambda>(k, b, t). \<lparr>msoa = k, black_count = b, population = t\<rparr>)"

definition process_census_data :: "census_row list \<Rightarrow> pop_row list" where
  "process_census_data df =
     (let msoa_data = filter is_msoa df;
          total = groupby_sum (map geo_value msoa_data);
          black = filter is_black msoa_data;
          black_sum = groupby_sum (map geo_value black);
          result = merge_inner black_sum total
      in map mk_pop_row result)"

section \<open>The population table: \<open>load_black_population\<close>\<close>

text \<open>
  \<^verbatim>\<open>
  df = pd.read_csv(BLACK_POP_CSV)
  df["black_share"] = df["black_count"] / df["population"]
  \<close>
  The function is applied to the table read from the file. The quotient of a row whose
  population is not zero is given as the exact rational; its rounding to a floating
  point number is not modelled.
\<close>

record share_row = pop_row +
  black_share :: pyfloat

definition load_black_population :: "pop_row list \<Rightarrow> share_row list" where
  "load_black_population df =
     map (\<lambda>r. pop_row.extend r
            \<lparr>black_share = true_div (black_count r) (population r)\<rparr>) df"

section \<open>The joiner: \<open>load_all_data\<close>\<close>

text \<open>
  The function is applied to the four loaded tables: the boundaries (area code and the
  name and geometry, an opaque payload \<open>'g\<close>), the income table (area code and
  income), the population table with its share column, and the housing table (area code,
  full name and median price).
  \<^verbatim>\<open>
  gdf = gdf.merge(income_df, on="msoa", how="left")
  gdf = gdf.merge(black_df, on="msoa", how="left")
  gdf = gdf.merge(housing_df, on="msoa", how="left")
  gdf.dropna(subset=['black_share', 'income', 'median_house_price'], inplace=True)
  \<close>
  A row of the joined table keeps what each merge attached; \<open>col_income\<close>,
  \<open>col_black_share\<close> and \<open>col_median_house_price\<close> read its columns, NaN where the
  merge found no row.
\<close>

type_synonym housing_row = "string \<times> pyfloat"

type_synonym 'g joined_row =
  "string \<times> (('g \<times> pyfloat option) \<times> share_row option) \<times> housing_row option"

definition col_income :: "'g joined_row \<Rightarrow> pyfloat" where
  "col_income = (\<lambda>(k, ((g, i), b), h). case i of None \<Rightarrow> NaN | Some v \<Rightarrow> v)"

definition col_black_share :: "'g joined_row \<Rightarrow> pyfloat" where
  "col_black_share = (\<lambda>(k, ((g, i), b), h). case b of None \<Rightarrow> NaN | Some r \<Rightarrow> black_share r)"

definition col_median_house_price :: "'g joined_row \<Rightarrow> pyfloat" where
  "col_median_house_price = (\<lambda>(k, ((g, i), b), h). case h of None \<Rightarrow> NaN | Some (n, p) \<Rightarrow> p)"

definition complete_row :: "'g joined_row \<Rightarrow> bool" where
  "complete_row r =
     (\<not> isna (col_black_share r) \<and> \<not> isna (col_income r) \<and> \<not> isna (col_median_house_price r))"

definition load_all_data ::
  "(string \<times> 'g) list \<Rightarrow> (string \<times> pyfloat) list \<Rightarrow> share_row list \<Rightarrow>
   (string \<times> housing_row) list \<Rightarrow> 'g joined_row list" where
  "load_all_data gdf income_df black_df housing_df =
     (let gdf1 = merge_left gdf income_df;
          gdf2 = merge_left gdf1 (map (\<lambda>r. (msoa r, r)) black_df);
          gdf3 = merge_left gdf2 housing_df
      in filter complete_row gdf3)"

section \<open>Table-wide statistics: \<open>calculate_global_stats\<close>\<close>

text \<open>
  \<^verbatim>\<open>
  mean_income = income_series.mean()
  percentile_65_house_price = housing_series.quantile(0.65)
  \<close>
  The two series are columns of the joined table, which holds no NaN in them. The
  model covers the series whose cells are all finite numbers, and computes on them in
  exact rational arithmetic: a series with an infinite cell, the rounding of floating
  point numbers and a sum that overflows to infinity are outside of it. The mean and
  the quantile of an empty series are NaN. \<open>quantile\<close> interpolates linearly between
  the order statistics around the position \<open>q * (n - 1)\<close> of the sorted series.
\<close>

definition series_mean :: "rat list \<Rightarrow> pyfloat" where
  "series_mean xs = (if xs = [] then NaN else Fin (sum_list xs / of_nat (length xs)))"

definition series_quantile :: "rat list \<Rightarrow> rat \<Rightarrow> pyfloat" where
  "series_quantile xs q =
     (if xs = [] then NaN
      else let s = sort xs;
               n = length s;
               h = q * of_nat (n - 1);
               lo = nat \<lfloor>h\<rfloor>;
               hi = min (lo + 1) (n - 1);
               frac = h - of_nat lo
           in Fin (s ! lo + (s ! hi - s ! lo) * frac))"

definition calculate_global_stats :: "rat list \<Rightarrow> rat list \<Rightarrow> pyfloat \<times> pyfloat" where
  "calculate_global_stats income_series housing_series =
     (series_mean income_series, series_quantile housing_series (65 / 100))"

section \<open>The filter: \<open>current_filter_mask\<close>\<close>

text \<open>
  \<^verbatim>\<open>
  current_filter_mask = (
      (gdf["black_share"] >= black_share_threshold)
      & (gdf["income"] >= income_threshold_value)
      & (gdf["median_house_price"] <= housing_threshold_value))
  ... current_filter_mask.sum() ...
  \<close>
  Each comparison gives a boolean series, \<open>&\<close> combines two of them cell by cell, and
  \<open>sum\<close> counts a true cell as 1.
\<close>

record filter_criteria =
  black_share_threshold :: pyfloat
  income_threshold_value :: pyfloat
  housing_threshold_value :: pyfloat

definition series_and :: "bool list \<Rightarrow> bool list \<Rightarrow> bool list" where
  "series_and a b = map (\<lambda>(x, y). x \<and> y) (zip a b)"

definition current_filter_mask :: "'g joined_row list \<Rightarrow> filter_criteria \<Rightarrow> bool list" where
  "current_filter_mask gdf c =
     series_and
       (series_and (map (\<lambda>r. pf_ge (col_black_share r) (black_share_threshold c)) gdf)
                   (map (\<lambda>r. pf_ge (col_income r) (income_threshold_value c)) gdf))
       (map (\<lambda>r. pf_le (col_median_house_price r) (housing_threshold_value c)) gdf)"

definition mask_sum :: "bool list \<Rightarrow> nat" where
  "mask_sum m = sum_list (map (\<lambda>b. if b then 1 else 0) m)"

section \<open>The downloaded observations: \<open>process_observations\<close>\<close>

text \<open>
  An observation of the API has the labels of its sex and ethnic group dimensions, the
  id of its geography, and a count: \<open>obs_count\<close> is the value of
  \<open>int(obs["observation"])\<close>, \<open>None\<close> when \<open>int\<close> raises ValueError.
  \<^verbatim>\<open>
  for obs in observations:
      dims = obs["dimensions"]
      if dims["sex"]["label"] != "All persons":
          continue
      data.append({"msoa": dims["geography"]["id"],
                   "ethnic_group": dims["ethnic_group"]["label"],
                   "count": int(obs["observation"])})
  df = pd.DataFrame(data)
  total = df[df["ethnic_group"] == "All ethnic groups"] ...
  black = df[df["ethnic_group"] ==
             "Black, Black British, Black Welsh, Caribbean or African"] ...
  return black.merge(total, on="msoa")
  \<close>
  \<open>collect\<close> is the loop. A data frame built from an empty list has no columns, so
  \<open>df["ethnic_group"]\<close> raises KeyError.
\<close>

record api_obs =
  sex_label :: string
  geography_id :: string
  ethnic_label :: string
  obs_count :: "int option"

definition black_label :: string where
  "black_label = ''Black, Black British, Black Welsh, Caribbean or African''"

fun collect :: "api_obs list \<Rightarrow> error + (string \<times> string \<times> int) list" where
  "collect [] = Inr []"
| "collect (ob # obs) =
     (if sex_label ob \<noteq> ''All persons'' then collect obs
      else case obs_count ob of
             None \<Rightarrow> Inl ValueError
           | Some n \<Rightarrow>
               (case collect obs of
                  Inl e \<Rightarrow> Inl e
                | Inr data \<Rightarrow> Inr ((geography_id ob, ethnic_label ob, n) # data)))"

definition select_group :: "string \<Rightarrow> (string \<times> string \<times> int) list \<Rightarrow> (string \<times> int) list" where
  "select_group g data = map (\<lambda>(m, e, c). (m, c)) (filter (\<lambda>(m, e, c). e = g) data)"

definition process_observations :: "api_obs list \<Rightarrow> error + pop_row list" where
  "process_observations observations =
     (case collect observations of
        Inl e \<Rightarrow> Inl e
      | Inr data \<Rightarrow>
          if data = [] then Inl KeyError
          else let total = select_group ''All ethnic groups'' data;
                   black = select_group black_label data
               in Inr (map mk_pop_row (merge_inner black total)))"

text \<open>
  \<open>all_persons_data\<close> is the list \<open>data\<close> the loop builds when every count it reads is
  an integer.
\<close>

definition all_persons_data :: "api_obs list \<Rightarrow> (string \<times> string \<times> int) list" where
  "all_persons_data obs =
     map (\<lambda>ob. (geography_id ob, ethnic_label ob, case obs_count ob of Some n \<Rightarrow> n | None \<Rightarrow> 0))
         (filter (\<lambda>ob. sex_label ob = ''All persons'') obs)"

text \<open>
  The observations describe the same per-area counts as the census file when, for every
  area of either, the counts of the rows labelled \<open>All ethnic groups\<close> add up to the
  sum of all the rows of the area in the file, and the counts of the rows labelled with
  the group add up to the sum of the rows of the area whose category starts with the
  group's prefix.
\<close>

definition same_area_counts :: "api_obs list \<Rightarrow> census_row list \<Rightarrow> bool" where
  "same_area_counts obs df =
     (\<forall>a \<in> set (map geography_id obs) \<union> set (map geo_code df).
        sum_list (matches a (select_group ''All ethnic groups'' (all_persons_data obs))) =
          sum_list (map observation (filter (\<lambda>r. geo_code r = a) df)) \<and>
        sum_list (matches a (select_group black_label (all_persons_data obs))) =
          sum_list (map observation (filter (\<lambda>r. geo_code r = a \<and> is_black r) df)))"

section \<open>Properties of the string operations\<close>

lemma startswith_iff: "startswith s p \<longleftrightarrow> (\<exists>t. s = p @ t)"
  unfolding startswith_def
  by (metis append_eq_conv_conj append_take_drop_id)

lemma contains_iff: "contains p s \<longleftrightarrow> (\<exists>u t. s = u @ p @ t)"
proof (induction s)
  case Nil
  then show ?case by auto
next
  case (Cons c cs)
  show ?case
  proof
    assume "contains p (c # cs)"
    then consider "startswith (c # cs) p" | "contains p cs" by auto
    then show "\<exists>u t. c # cs = u @ p @ t"
    proof cases
      case 1
      then obtain t where "c # cs = p @ t" by (auto simp: startswith_iff)
      then have "c # cs = [] @ p @ t" by simp
      then show ?thesis by blast
    next
      case 2
      then obtain u t where "cs = u @ p @ t" using Cons.IH by blast
      then have "c # cs = (c # u) @ p @ t" by simp
      then show ?thesis by blast
    qed
  next
    assume "\<exists>u t. c # cs = u @ p @ t"
    then obtain u t where ut: "c # cs = u @ p @ t" by blast
    show "contains p (c # cs)"
    proof (cases u)
      case Nil
      with ut have "startswith (c # cs) p" by (auto simp: startswith_iff)
      then show ?thesis by simp
    next
      case (Cons d u')
      with ut have "cs = u' @ p @ t" by simp
      then have "contains p cs" using Cons.IH by blast
      then show ?thesis by simp
    qed
  qed
qed

section \<open>Properties of the shapefile selection\<close>

lemma min_by_len_mem: "min_by_len b ms \<in> set (b # ms)"
  by (induction ms arbitrary: b) auto

lemma min_by_len_le: "m \<in> set (b # ms) \<Longrightarrow> length (min_by_len b ms) \<le> length m"
proof (induction ms arbitrary: b m)
  case Nil
  then show ?case by simp
next
  case (Cons a ms)
  let ?b' = "if length a < length b then a else b"
  have step: "min_by_len b (a # ms) = min_by_len ?b' ms" by simp
  have b': "length (min_by_len ?b' ms) \<le> length ?b'"
    by (rule Cons.IH) simp
  from Cons.prems consider "m = b" | "m = a" | "m \<in> set ms" by auto
  then show ?case
  proof cases
    case 1
    with b' show ?thesis unfolding step by (auto split: if_splits)
  next
    case 2
    with b' show ?thesis unfolding step by (auto split: if_splits)
  next
    case 3
    then have "m \<in> set (?b' # ms)" by simp
    from Cons.IH [OF this] show ?thesis unfolding step .
  qed
qed

section \<open>Properties of grouping and merging\<close>

lemma wrap64_idem: "wrap64 (wrap64 x) = wrap64 x"
  by (simp add: wrap64_def)

lemma wrap64_add_left: "wrap64 (wrap64 a + b) = wrap64 (a + b)"
proof -
  have "wrap64 a + b + 9223372036854775808 = (a + 9223372036854775808) mod 18446744073709551616 + b"
    by (simp add: wrap64_def)
  then have "(wrap64 a + b + 9223372036854775808) mod 18446744073709551616 =
             ((a + 9223372036854775808) mod 18446744073709551616 + b) mod 18446744073709551616"
    by (rule arg_cong)
  also have "\<dots> = (a + 9223372036854775808 + b) mod 18446744073709551616"
    by (rule mod_add_left_eq)
  also have "\<dots> = (a + b + 9223372036854775808) mod 18446744073709551616"
    by (simp only: ac_simps)
  finally show ?thesis unfolding wrap64_def [of "wrap64 a + b"] wrap64_def [of "a + b"] by simp
qed

lemma wrap64_in_range:
  "- 9223372036854775808 \<le> x \<Longrightarrow> x < 9223372036854775808 \<Longrightarrow> wrap64 x = x"
  by (simp add: wrap64_def)

lemma wrap64_range: "- 9223372036854775808 \<le> wrap64 x \<and> wrap64 x < 9223372036854775808"
proof -
  have "0 \<le> (x + 9223372036854775808) mod 18446744073709551616"
    "(x + 9223372036854775808) mod 18446744073709551616 < 18446744073709551616"
    by simp_all
  then show ?thesis unfolding wrap64_def by linarith
qed

lemma matches_Nil [simp]: "matches k [] = []"
  by (simp add: matches_def)

lemma matches_Cons [simp]: "matches k ((a, b) # r) = (if a = k then b # matches k r else matches k r)"
  by (simp add: matches_def)

lemma matches_append [simp]: "matches k (r @ r') = matches k r @ matches k r'"
  by (simp add: matches_def)

lemma matches_empty_iff: "matches k r = [] \<longleftrightarrow> k \<notin> fst ` set r"
  by (induction r) (auto split: if_splits)

lemma set_matches: "set (matches k r) = {b. (k, b) \<in> set r}"
  by (induction r) (auto split: if_splits)

lemma matches_distinct: "distinct (map fst r) \<Longrightarrow> (k, b) \<in> set r \<Longrightarrow> matches k r = [b]"
proof (induction r)
  case Nil
  then show ?case by simp
next
  case (Cons p r)
  obtain a c where p: "p = (a, c)" by (cases p)
  show ?case
  proof (cases "a = k")
    case True
    with Cons.prems p have "k \<notin> fst ` set r" by simp
    then have "matches k r = []" by (simp add: matches_empty_iff)
    moreover from Cons.prems p True \<open>k \<notin> fst ` set r\<close> have "c = b" by force
    ultimately show ?thesis using p True by simp
  next
    case False
    with Cons.prems p have "(k, b) \<in> set r" "distinct (map fst r)" by auto
    with Cons.IH have "matches k r = [b]" by simp
    with p False show ?thesis by simp
  qed
qed

lemma matches_distinct_sum:
  assumes "distinct (map fst r)" and "k \<in> fst ` set r"
  shows "matches k r = [sum_list (matches k r)]"
proof -
  from assms(2) obtain b where "(k, b) \<in> set r" by force
  with assms(1) have "matches k r = [b]" by (rule matches_distinct)
  then show ?thesis by simp
qed

lemma matches_length_le1: "distinct (map fst r) \<Longrightarrow> length (matches k r) \<le> Suc 0"
proof (induction r)
  case Nil
  then show ?case by simp
next
  case (Cons p r)
  obtain a b where p: "p = (a, b)" by (cases p)
  show ?case
  proof (cases "a = k")
    case True
    with Cons.prems p have "k \<notin> fst ` set r" by simp
    then have "matches k r = []" by (simp add: matches_empty_iff)
    then show ?thesis using p by simp
  next
    case False
    with Cons p show ?thesis by simp
  qed
qed

lemma keys_add_to_group: "fst ` set (add_to_group k v gs) = insert k (fst ` set gs)"
  by (induction k v gs rule: add_to_group.induct) auto

lemma sorted_add_to_group:
  "sorted_wrt (<) (map fst gs) \<Longrightarrow> sorted_wrt (<) (map fst (add_to_group k v gs))"
proof (induction k v gs rule: add_to_group.induct)
  case (1 k v)
  then show ?case by simp
next
  case (2 k v a s gs)
  show ?case
  proof (cases "k < a")
    case True
    with "2.prems" show ?thesis by auto
  next
    case False
    show ?thesis
    proof (cases "k = a")
      case True
      with "2.prems" show ?thesis by simp
    next
      case ne: False
      with False have gt: "a < k" by simp
      from "2.prems" have tl: "sorted_wrt (<) (map fst gs)" and hd: "\<forall>x \<in> fst ` set gs. a < x"
        by auto
      from "2.IH" False ne tl have "sorted_wrt (<) (map fst (add_to_group k v gs))" by simp
      moreover have "\<forall>x \<in> fst ` set (add_to_group k v gs). a < x"
        using hd gt by (simp add: keys_add_to_group)
      ultimately show ?thesis using False ne by auto
    qed
  qed
qed

lemma matches_above:
  assumes "sorted_wrt (<) ((a::'k::linorder) # map fst gs)" and "k \<le> a"
  shows "matches k gs = []"
proof -
  have "k < y" if "y \<in> fst ` set gs" for y
  proof -
    from assms(1) that have "a < y" by auto
    with assms(2) show ?thesis by (rule le_less_trans)
  qed
  then have "k \<notin> fst ` set gs" by auto
  then show ?thesis by (simp add: matches_empty_iff)
qed

lemma sum_add_to_group:
  "sorted_wrt (<) (map fst gs) \<Longrightarrow>
   sum_list (matches x (add_to_group k v gs)) =
     (if x = k then int64_add (sum_list (matches k gs)) v else sum_list (matches x gs))"
proof (induction gs)
  case Nil
  then show ?case by simp
next
  case (Cons p gs)
  obtain a s where p: "p = (a, s)" by (cases p)
  from Cons.prems have srt: "sorted_wrt (<) (a # map fst gs)" and tl: "sorted_wrt (<) (map fst gs)"
    unfolding p by simp_all
  consider "k < a" | "k = a" | "a < k" by (rule linorder_cases)
  then show ?case
  proof cases
    case 1
    then have "k \<le> a" by simp
    with srt have "matches k gs = []" by (rule matches_above)
    with 1 show ?thesis unfolding p by auto
  next
    case 2
    then have "k \<le> a" by simp
    with srt have "matches k gs = []" by (rule matches_above)
    with 2 show ?thesis unfolding p by auto
  next
    case 3
    with Cons.IH [OF tl] show ?thesis unfolding p by auto
  qed
qed

lemma in_range_add_to_group:
  "\<forall>(a, s) \<in> set gs. wrap64 s = s \<Longrightarrow> \<forall>(a, s) \<in> set (add_to_group k v gs). wrap64 s = s"
  by (induction k v gs rule: add_to_group.induct) (auto simp: int64_add_def wrap64_idem)

lemma foldl_groups:
  "sorted_wrt (<) (map fst gs) \<Longrightarrow> \<forall>(a, s) \<in> set gs. wrap64 s = s \<Longrightarrow>
   sorted_wrt (<) (map fst (foldl (\<lambda>gs (k, v). add_to_group k v gs) gs kvs)) \<and>
   fst ` set (foldl (\<lambda>gs (k, v). add_to_group k v gs) gs kvs) = fst ` set gs \<union> fst ` set kvs \<and>
   (\<forall>(a, s) \<in> set (foldl (\<lambda>gs (k, v). add_to_group k v gs) gs kvs). wrap64 s = s) \<and>
   (\<forall>x. wrap64 (sum_list (matches x (foldl (\<lambda>gs (k, v). add_to_group k v gs) gs kvs))) =
        wrap64 (sum_list (matches x gs) + sum_list (matches x kvs)))"
proof (induction kvs arbitrary: gs)
  case Nil
  then show ?case by simp
next
  case (Cons p kvs)
  obtain k v where p: "p = (k, v)" by (cases p)
  let ?gs' = "add_to_group k v gs"
  let ?F = "foldl (\<lambda>gs (k, v). add_to_group k v gs) ?gs' kvs"
  have s': "sorted_wrt (<) (map fst ?gs')"
    using Cons.prems(1) by (rule sorted_add_to_group)
  have r': "\<forall>(a, s) \<in> set ?gs'. wrap64 s = s"
    using Cons.prems(2) by (rule in_range_add_to_group)
  note IH = Cons.IH [OF s' r']
  have step: "foldl (\<lambda>gs (k, v). add_to_group k v gs) gs (p # kvs) = ?F" unfolding p by simp
  have keys: "fst ` set ?F = fst ` set gs \<union> fst ` set (p # kvs)"
    using IH unfolding p by (auto simp: keys_add_to_group)
  have sums: "wrap64 (sum_list (matches x ?F)) =
        wrap64 (sum_list (matches x gs) + sum_list (matches x (p # kvs)))" for x
  proof -
    from IH have e: "wrap64 (sum_list (matches x ?F)) =
        wrap64 (sum_list (matches x ?gs') + sum_list (matches x kvs))" by blast
    show ?thesis
    proof (cases "x = k")
      case True
      have "sum_list (matches x ?gs') = wrap64 (sum_list (matches k gs) + v)"
        using True sum_add_to_group [OF Cons.prems(1), of x k v] by (simp add: int64_add_def)
      then have "wrap64 (sum_list (matches x ?F)) =
          wrap64 (sum_list (matches k gs) + v + sum_list (matches x kvs))"
        unfolding e by (simp add: wrap64_add_left)
      then show ?thesis using True unfolding p by (simp add: add.assoc)
    next
      case False
      have "sum_list (matches x ?gs') = sum_list (matches x gs)"
        using False sum_add_to_group [OF Cons.prems(1), of x k v] by simp
      then show ?thesis using False unfolding e p by simp
    qed
  qed
  from IH keys sums show ?case unfolding step by blast
qed

lemma groupby_sum_sorted: "sorted_wrt (<) (map fst (groupby_sum kvs))"
  using foldl_groups [of "[]" kvs] by (simp add: groupby_sum_def)

lemma groupby_sum_keys: "fst ` set (groupby_sum kvs) = fst ` set kvs"
  using foldl_groups [of "[]" kvs] by (simp add: groupby_sum_def)

lemma groupby_sum_distinct: "distinct (map fst (groupby_sum kvs))"
  using groupby_sum_sorted [of kvs] by (simp add: strict_sorted_iff)

lemma groupby_sum_value:
  assumes "(k, v) \<in> set (groupby_sum kvs)"
  shows "v = wrap64 (sum_list (matches k kvs))"
proof -
  let ?G = "groupby_sum kvs"
  from foldl_groups [of "[]" kvs]
  have rng: "\<forall>(a, s) \<in> set ?G. wrap64 s = s"
    and sums: "\<forall>x. wrap64 (sum_list (matches x ?G)) = wrap64 (sum_list (matches x kvs))"
    by (simp_all add: groupby_sum_def)
  from groupby_sum_distinct assms have "matches k ?G = [v]" by (rule matches_distinct)
  then have "wrap64 v = wrap64 (sum_list (matches k kvs))" using sums [rule_format, of k] by simp
  moreover from rng assms have "wrap64 v = v" by auto
  ultimately show ?thesis by simp
qed

lemma groupby_sum_total:
  assumes "k \<in> fst ` set kvs"
  shows "sum_list (matches k (groupby_sum kvs)) = wrap64 (sum_list (matches k kvs))"
proof -
  from assms have "k \<in> fst ` set (groupby_sum kvs)" by (simp add: groupby_sum_keys)
  then obtain v where v: "(k, v) \<in> set (groupby_sum kvs)" by force
  with groupby_sum_distinct have "matches k (groupby_sum kvs) = [v]" by (rule matches_distinct)
  with groupby_sum_value [OF v] show ?thesis by simp
qed

lemma rebuild_from_keys:
  "\<forall>(k, v) \<in> set gs. f k = v \<Longrightarrow> map (\<lambda>k. (k, f k)) (map fst gs) = gs"
  by (induction gs) auto

lemma groupby_sum_eq:
  "groupby_sum kvs =
     map (\<lambda>k. (k, wrap64 (sum_list (matches k kvs)))) (sorted_list_of_set (fst ` set kvs))"
proof -
  let ?G = "groupby_sum kvs"
  have keys: "map fst ?G = sorted_list_of_set (fst ` set kvs)"
  proof -
    have "sorted (map fst ?G)" "distinct (map fst ?G)"
      using groupby_sum_sorted [of kvs] by (simp_all add: strict_sorted_iff)
    then have "sorted_list_of_set (set (map fst ?G)) = map fst ?G"
      by (rule sorted_list_of_set.idem_if_sorted_distinct)
    then show ?thesis by (simp add: groupby_sum_keys)
  qed
  have "\<forall>(k, v) \<in> set ?G. wrap64 (sum_list (matches k kvs)) = v"
    using groupby_sum_value by fastforce
  then have "map (\<lambda>k. (k, wrap64 (sum_list (matches k kvs)))) (map fst ?G) = ?G"
    by (rule rebuild_from_keys)
  then show ?thesis by (simp add: keys)
qed

lemma merge_inner_unique:
  "distinct (map fst r) \<Longrightarrow> fst ` set l \<subseteq> fst ` set r \<Longrightarrow>
   merge_inner l r = map (\<lambda>(k, a). (k, a, sum_list (matches k r))) l"
proof (induction l)
  case Nil
  then show ?case by (simp add: merge_inner_def)
next
  case (Cons p l)
  obtain k a where p: "p = (k, a)" by (cases p)
  from Cons.prems p have "k \<in> fst ` set r" by simp
  with Cons.prems(1) have "matches k r = [sum_list (matches k r)]" by (rule matches_distinct_sum)
  then obtain s where m: "matches k r = [s]" by blast
  from Cons have "merge_inner l r = map (\<lambda>(k, a). (k, a, sum_list (matches k r))) l" by simp
  then show ?case unfolding p by (simp add: merge_inner_def m)
qed

lemma left_rows_keys: "distinct (map fst r) \<Longrightarrow> map fst (left_rows k a r) = [k]"
proof -
  assume "distinct (map fst r)"
  then have "length (matches k r) \<le> Suc 0" by (rule matches_length_le1)
  then show ?thesis
    by (cases "matches k r") (simp_all add: left_rows_def)
qed

lemma left_rows_mem:
  "(k', a', ob) \<in> set (left_rows k a r) \<Longrightarrow>
   k' = k \<and> a' = a \<and> (\<forall>b. ob = Some b \<longrightarrow> (k, b) \<in> set r)"
proof (cases "matches k r")
  case Nil
  assume "(k', a', ob) \<in> set (left_rows k a r)"
  with Nil show ?thesis by (simp add: left_rows_def)
next
  case (Cons c cs)
  assume "(k', a', ob) \<in> set (left_rows k a r)"
  with Cons have "(k', a', ob) \<in> (\<lambda>b. (k, a, Some b)) ` set (matches k r)"
    by (simp add: left_rows_def)
  then show ?thesis by (auto simp: set_matches)
qed

lemma merge_left_Cons: "merge_left ((k, a) # l) r = left_rows k a r @ merge_left l r"
  by (simp add: merge_left_def)

lemma merge_left_keys: "distinct (map fst r) \<Longrightarrow> map fst (merge_left l r) = map fst l"
proof (induction l)
  case Nil
  then show ?case by (simp add: merge_left_def)
next
  case (Cons p l)
  obtain k a where p: "p = (k, a)" by (cases p)
  from Cons show ?case unfolding p by (simp add: merge_left_Cons left_rows_keys)
qed

lemma merge_left_mem:
  "(k, a, ob) \<in> set (merge_left l r) \<Longrightarrow>
   (k, a) \<in> set l \<and> (\<forall>b. ob = Some b \<longrightarrow> (k, b) \<in> set r)"
proof (induction l)
  case Nil
  then show ?case by (simp add: merge_left_def)
next
  case (Cons p l)
  obtain k0 a0 where p: "p = (k0, a0)" by (cases p)
  from Cons.prems consider "(k, a, ob) \<in> set (left_rows k0 a0 r)" | "(k, a, ob) \<in> set (merge_left l r)"
    unfolding p by (auto simp: merge_left_Cons)
  then show ?case
  proof cases
    case 1
    from left_rows_mem [OF this] show ?thesis unfolding p by simp
  next
    case 2
    with Cons.IH show ?thesis by simp
  qed
qed

lemma merge_left_right:
  "(k, a, Some b) \<in> set (merge_left l r) \<Longrightarrow> (k, b) \<in> set r"
  using merge_left_mem [of k a "Some b" l r] by simp

lemma merge_left_left:
  "(k, a, ob) \<in> set (merge_left l r) \<Longrightarrow> (k, a) \<in> set l"
  using merge_left_mem [of k a ob l r] by simp

section \<open>Properties of the census processing\<close>

lemma matches_geo_value:
  "matches a (map geo_value rows) = map observation (filter (\<lambda>r. geo_code r = a) rows)"
  by (induction rows) (simp_all add: geo_value_def)

lemma process_census_data_eq:
  "process_census_data df =
     map (\<lambda>a. \<lparr>msoa = a,
                black_count = wrap64 (sum_list (map observation (filter (\<lambda>r. geo_code r = a \<and> is_black r) df))),
                population = wrap64 (sum_list (map observation (filter (\<lambda>r. geo_code r = a) df)))\<rparr>)
         (sorted_list_of_set (geo_code ` set (filter (\<lambda>r. is_msoa r \<and> is_black r) df)))"
proof -
  let ?msoa = "filter is_msoa df"
  let ?black = "filter is_black ?msoa"
  let ?total = "groupby_sum (map geo_value ?msoa)"
  let ?bsum = "groupby_sum (map geo_value ?black)"
  let ?keys = "(sorted_list_of_set (geo_code ` set (filter (\<lambda>r. is_msoa r \<and> is_black r) df)))"
  have bkeys: "fst ` set (map geo_value ?black) = geo_code ` set (filter (\<lambda>r. is_msoa r \<and> is_black r) df)"
    by (auto simp: geo_value_def image_iff)
  have b: "?bsum = map (\<lambda>k. (k, wrap64 (sum_list (matches k (map geo_value ?black))))) ?keys"
    by (subst groupby_sum_eq) (simp only: bkeys)
  have sub: "fst ` set ?bsum \<subseteq> fst ` set ?total"
    by (auto simp: groupby_sum_keys geo_value_def image_iff)
  have "merge_inner ?bsum ?total = map (\<lambda>(k, a). (k, a, sum_list (matches k ?total))) ?bsum"
    using groupby_sum_distinct sub by (rule merge_inner_unique)
  also have "\<dots> = map (\<lambda>k. (k, wrap64 (sum_list (matches k (map geo_value ?black))),
                            sum_list (matches k ?total))) ?keys"
    unfolding b by (simp add: o_def)
  finally have m: "merge_inner ?bsum ?total =
      map (\<lambda>k. (k, wrap64 (sum_list (matches k (map geo_value ?black))),
                    sum_list (matches k ?total))) ?keys" .
  have fin: "finite (geo_code ` set (filter (\<lambda>r. is_msoa r \<and> is_black r) df))" by simp
  have vals: "\<And>a. a \<in> set ?keys \<Longrightarrow>
      sum_list (matches a (map geo_value ?black)) = sum_list (map observation (filter (\<lambda>r. geo_code r = a \<and> is_black r) df)) \<and>
      sum_list (matches a ?total) = wrap64 (sum_list (map observation (filter (\<lambda>r. geo_code r = a) df)))"
  proof -
    fix a assume "a \<in> set ?keys"
    then have mem: "a \<in> geo_code ` set (filter (\<lambda>r. is_msoa r \<and> is_black r) df)"
      using fin by (simp del: set_filter)
    then have e: "startswith a ''E02''" by (auto simp: is_msoa_def)
    have f1: "filter (\<lambda>r. geo_code r = a) ?black = filter (\<lambda>r. geo_code r = a \<and> is_black r) df"
      using e by (auto simp: is_msoa_def intro: filter_cong)
    have f2: "filter (\<lambda>r. geo_code r = a) ?msoa = filter (\<lambda>r. geo_code r = a) df"
      using e by (auto simp: is_msoa_def intro: filter_cong)
    from mem have "a \<in> fst ` set (map geo_value ?msoa)"
      by (auto simp: geo_value_def image_iff)
    then have "sum_list (matches a ?total) = wrap64 (sum_list (matches a (map geo_value ?msoa)))"
      by (rule groupby_sum_total)
    then show "sum_list (matches a (map geo_value ?black)) = sum_list (map observation (filter (\<lambda>r. geo_code r = a \<and> is_black r) df)) \<and>
      sum_list (matches a ?total) = wrap64 (sum_list (map observation (filter (\<lambda>r. geo_code r = a) df)))"
      unfolding matches_geo_value f1 f2 by simp
  qed
  have "map mk_pop_row (merge_inner ?bsum ?total) =
      map (mk_pop_row \<circ> (\<lambda>k. (k, wrap64 (sum_list (matches k (map geo_value ?black))),
                    sum_list (matches k ?total)))) ?keys"
    unfolding m by simp
  also have "\<dots> = map (\<lambda>a. \<lparr>msoa = a,
                black_count = wrap64 (sum_list (map observation (filter (\<lambda>r. geo_code r = a \<and> is_black r) df))),
                population = wrap64 (sum_list (map observation (filter (\<lambda>r. geo_code r = a) df)))\<rparr>) ?keys"
  proof (rule map_cong [OF refl])
    fix a assume "a \<in> set ?keys"
    from vals [OF this]
    show "(mk_pop_row \<circ> (\<lambda>k. (k, wrap64 (sum_list (matches k (map geo_value ?black))),
                    sum_list (matches k ?total)))) a =
          \<lparr>msoa = a,
           black_count = wrap64 (sum_list (map observation (filter (\<lambda>r. geo_code r = a \<and> is_black r) df))),
           population = wrap64 (sum_list (map observation (filter (\<lambda>r. geo_code r = a) df)))\<rparr>"
      by (simp add: mk_pop_row_def)
  qed
  finally show ?thesis
    unfolding process_census_data_def Let_def .
qed

lemma process_census_data_exact:
  assumes "\<forall>a \<in> geo_code ` set (filter (\<lambda>r. is_msoa r \<and> is_black r) df).
             - 9223372036854775808 \<le> sum_list (map observation (filter (\<lambda>r. geo_code r = a \<and> is_black r) df)) \<and> sum_list (map observation (filter (\<lambda>r. geo_code r = a \<and> is_black r) df)) < 9223372036854775808 \<and>
             - 9223372036854775808 \<le> sum_list (map observation (filter (\<lambda>r. geo_code r = a) df)) \<and> sum_list (map observation (filter (\<lambda>r. geo_code r = a) df)) < 9223372036854775808"
  shows "process_census_data df =
     map (\<lambda>a. \<lparr>msoa = a, black_count = sum_list (map observation (filter (\<lambda>r. geo_code r = a \<and> is_black r) df)), population = sum_list (map observation (filter (\<lambda>r. geo_code r = a) df))\<rparr>)
         (sorted_list_of_set (geo_code ` set (filter (\<lambda>r. is_msoa r \<and> is_black r) df)))"
proof -
  have fin: "finite (geo_code ` set (filter (\<lambda>r. is_msoa r \<and> is_black r) df))" by simp
  have "map (\<lambda>a. \<lparr>msoa = a, black_count = wrap64 (sum_list (map observation (filter (\<lambda>r. geo_code r = a \<and> is_black r) df))), population = wrap64 (sum_list (map observation (filter (\<lambda>r. geo_code r = a) df)))\<rparr>) (sorted_list_of_set (geo_code ` set (filter (\<lambda>r. is_msoa r \<and> is_black r) df))) =
        map (\<lambda>a. \<lparr>msoa = a, black_count = sum_list (map observation (filter (\<lambda>r. geo_code r = a \<and> is_black r) df)), population = sum_list (map observation (filter (\<lambda>r. geo_code r = a) df))\<rparr>) (sorted_list_of_set (geo_code ` set (filter (\<lambda>r. is_msoa r \<and> is_black r) df)))"
  proof (rule map_cong [OF refl])
    fix a assume "a \<in> set (sorted_list_of_set (geo_code ` set (filter (\<lambda>r. is_msoa r \<and> is_black r) df)))"
    then have "a \<in> geo_code ` set (filter (\<lambda>r. is_msoa r \<and> is_black r) df)" using fin by (simp del: set_filter)
    with assms have "- 9223372036854775808 \<le> sum_list (map observation (filter (\<lambda>r. geo_code r = a \<and> is_black r) df)) \<and> sum_list (map observation (filter (\<lambda>r. geo_code r = a \<and> is_black r) df)) < 9223372036854775808 \<and>
             - 9223372036854775808 \<le> sum_list (map observation (filter (\<lambda>r. geo_code r = a) df)) \<and> sum_list (map observation (filter (\<lambda>r. geo_code r = a) df)) < 9223372036854775808"
      by (rule bspec)
    then have "wrap64 (sum_list (map observation (filter (\<lambda>r. geo_code r = a \<and> is_black r) df))) = sum_list (map observation (filter (\<lambda>r. geo_code r = a \<and> is_black r) df))" "wrap64 (sum_list (map observation (filter (\<lambda>r. geo_code r = a) df))) = sum_list (map observation (filter (\<lambda>r. geo_code r = a) df))"
      by (simp_all add: wrap64_in_range)
    then show "\<lparr>msoa = a, black_count = wrap64 (sum_list (map observation (filter (\<lambda>r. geo_code r = a \<and> is_black r) df))), population = wrap64 (sum_list (map observation (filter (\<lambda>r. geo_code r = a) df)))\<rparr> =
               \<lparr>msoa = a, black_count = sum_list (map observation (filter (\<lambda>r. geo_code r = a \<and> is_black r) df)), population = sum_list (map observation (filter (\<lambda>r. geo_code r = a) df))\<rparr>"
      by simp
  qed
  then show ?thesis by (simp only: process_census_data_eq)
qed

lemma sum_filter_mono:
  "\<forall>x \<in> set xs. (0::int) \<le> f x \<Longrightarrow>
   0 \<le> sum_list (map f (filter (\<lambda>x. P x \<and> Q x) xs)) \<and>
   sum_list (map f (filter (\<lambda>x. P x \<and> Q x) xs)) \<le> sum_list (map f (filter P xs))"
  by (induction xs) auto

lemma true_div_unit:
  assumes "0 \<le> b" and "b \<le> t" and "t \<noteq> 0"
  shows "\<exists>q. true_div b t = Fin q \<and> 0 \<le> q \<and> q \<le> 1"
proof -
  from assms have "0 < t" by simp
  then have "0 \<le> (of_int b :: rat) / of_int t" "(of_int b :: rat) / of_int t \<le> 1"
    using assms by simp_all
  then show ?thesis using assms by (simp add: true_div_def)
qed

lemma counts_bounded:
  assumes "\<forall>r \<in> set df. 0 \<le> observation r"
    and "\<forall>a \<in> geo_code ` set df. sum_list (map observation (filter (\<lambda>r. geo_code r = a) df)) < 9223372036854775808"
    and "p \<in> set (process_census_data df)"
  shows "0 \<le> black_count p \<and> black_count p \<le> population p"
proof -
  have fin: "finite (geo_code ` set (filter (\<lambda>r. is_msoa r \<and> is_black r) df))" by simp
  from assms(3) obtain a where ak: "a \<in> set (sorted_list_of_set (geo_code ` set (filter (\<lambda>r. is_msoa r \<and> is_black r) df)))"
    and p: "p = \<lparr>msoa = a, black_count = wrap64 (sum_list (map observation (filter (\<lambda>r. geo_code r = a \<and> is_black r) df))), population = wrap64 (sum_list (map observation (filter (\<lambda>r. geo_code r = a) df)))\<rparr>"
    unfolding process_census_data_eq by auto
  from ak have "a \<in> geo_code ` set (filter (\<lambda>r. is_msoa r \<and> is_black r) df)" using fin by (simp del: set_filter)
  then have "a \<in> geo_code ` set df" by auto
  with assms(2) have t: "sum_list (map observation (filter (\<lambda>r. geo_code r = a) df)) < 9223372036854775808" by (rule bspec)
  from sum_filter_mono [OF assms(1), of "\<lambda>r. geo_code r = a" is_black]
  have b0: "0 \<le> sum_list (map observation (filter (\<lambda>r. geo_code r = a \<and> is_black r) df))" and bt: "sum_list (map observation (filter (\<lambda>r. geo_code r = a \<and> is_black r) df)) \<le> sum_list (map observation (filter (\<lambda>r. geo_code r = a) df))" by simp_all
  from b0 bt t have "wrap64 (sum_list (map observation (filter (\<lambda>r. geo_code r = a \<and> is_black r) df))) = sum_list (map observation (filter (\<lambda>r. geo_code r = a \<and> is_black r) df))" "wrap64 (sum_list (map observation (filter (\<lambda>r. geo_code r = a) df))) = sum_list (map observation (filter (\<lambda>r. geo_code r = a) df))"
    by (simp_all add: wrap64_in_range)
  with b0 bt show ?thesis unfolding p by simp
qed

lemma collect_filter: "collect (filter (\<lambda>ob. sex_label ob = ''All persons'') obs) = collect obs"
  by (induction obs) (simp_all split: option.splits sum.splits)

lemma collect_all_persons:
  "\<forall>ob \<in> set obs. sex_label ob = ''All persons'' \<longrightarrow> obs_count ob \<noteq> None \<Longrightarrow>
   collect obs = Inr (all_persons_data obs)"
  by (induction obs) (auto simp: all_persons_data_def)

lemma all_persons_data_nonempty:
  "\<exists>ob \<in> set obs. sex_label ob = ''All persons'' \<Longrightarrow> all_persons_data obs \<noteq> []"
  by (auto simp: all_persons_data_def filter_empty_conv)

section \<open>Properties of the joiner, the filter and the statistics\<close>

lemma load_all_data_rows:
  assumes "distinct (map fst gdf)" and "distinct (map fst income_df)"
    and "distinct (map msoa black_df)" and "distinct (map fst housing_df)"
  shows "length (load_all_data gdf income_df black_df housing_df)
           \<le> min (length gdf) (min (length income_df) (min (length black_df) (length housing_df)))"
proof -
  let ?bkv = "map (\<lambda>r. (msoa r, r)) black_df"
  let ?g1 = "merge_left gdf income_df"
  let ?g2 = "merge_left ?g1 ?bkv"
  let ?g3 = "merge_left ?g2 housing_df"
  let ?out = "load_all_data gdf income_df black_df housing_df"
  have out: "?out = filter complete_row ?g3" by (simp add: load_all_data_def)
  have kb: "map fst ?bkv = map msoa black_df" by (simp add: o_def)
  have k1: "map fst ?g1 = map fst gdf" using assms(2) by (rule merge_left_keys)
  have dk: "distinct (map fst ?bkv)" unfolding kb by (rule assms(3))
  have k2: "map fst ?g2 = map fst ?g1" using dk by (rule merge_left_keys)
  have k3: "map fst ?g3 = map fst ?g2" using assms(4) by (rule merge_left_keys)
  have keys: "map fst ?g3 = map fst gdf" by (simp only: k1 k2 k3)
  have "distinct (map fst ?g3)" using assms(1) by (simp only: keys)
  then have dout: "distinct (map fst ?out)" unfolding out by (rule distinct_map_filter)
  have "card (set (map fst ?out)) = length (map fst ?out)" using dout by (rule distinct_card)
  then have len: "length ?out = card (fst ` set ?out)" by simp
  have "length ?out \<le> length ?g3" unfolding out by simp
  also have "\<dots> = length (map fst ?g3)" by simp
  also have "\<dots> = length gdf" unfolding keys by simp
  finally have b0: "length ?out \<le> length gdf" .
  have src: "\<And>r. r \<in> set ?out \<Longrightarrow>
      fst r \<in> fst ` set income_df \<and> fst r \<in> msoa ` set black_df \<and> fst r \<in> fst ` set housing_df"
  proof -
    fix r assume r: "r \<in> set ?out"
    obtain k g i b h where rr: "r = (k, ((g, i), b), h)" by (metis prod.collapse)
    from r have in3: "r \<in> set ?g3" and c: "complete_row r" unfolding out by simp_all
    from c rr obtain v s p where i: "i = Some v" and b: "b = Some s" and h: "h = Some p"
      by (auto simp: complete_row_def col_income_def col_black_share_def col_median_house_price_def
          split: option.splits)
    from in3 rr h have "(k, p) \<in> set housing_df" by (simp add: merge_left_right)
    then have 1: "k \<in> fst ` set housing_df" by force
    from in3 rr have in2: "(k, ((g, i), b)) \<in> set ?g2" by (simp add: merge_left_left)
    then have "(k, ((g, i), Some s)) \<in> set ?g2" unfolding b .
    then have "(k, s) \<in> set ?bkv" by (rule merge_left_right)
    then have 2: "k \<in> msoa ` set black_df" by auto
    from in2 have "(k, (g, i)) \<in> set ?g1" by (rule merge_left_left)
    with i have "(k, v) \<in> set income_df" by (simp add: merge_left_right)
    then have 3: "k \<in> fst ` set income_df" by force
    from 1 2 3 show "fst r \<in> fst ` set income_df \<and> fst r \<in> msoa ` set black_df \<and> fst r \<in> fst ` set housing_df"
      unfolding rr by simp
  qed
  have "fst ` set ?out \<subseteq> fst ` set income_df" using src by blast
  then have "card (fst ` set ?out) \<le> card (fst ` set income_df)" by (simp add: card_mono)
  also have "\<dots> \<le> card (set income_df)" by (simp add: card_image_le)
  also have "\<dots> \<le> length income_df" by (rule card_length)
  finally have b1: "length ?out \<le> length income_df" unfolding len .
  have "fst ` set ?out \<subseteq> msoa ` set black_df" using src by blast
  then have "card (fst ` set ?out) \<le> card (msoa ` set black_df)" by (simp add: card_mono)
  also have "\<dots> \<le> card (set black_df)" by (simp add: card_image_le)
  also have "\<dots> \<le> length black_df" by (rule card_length)
  finally have b2: "length ?out \<le> length black_df" unfolding len .
  have "fst ` set ?out \<subseteq> fst ` set housing_df" using src by blast
  then have "card (fst ` set ?out) \<le> card (fst ` set housing_df)" by (simp add: card_mono)
  also have "\<dots> \<le> card (set housing_df)" by (simp add: card_image_le)
  also have "\<dots> \<le> length housing_df" by (rule card_length)
  finally have b3: "length ?out \<le> length housing_df" unfolding len .
  from b0 b1 b2 b3 show ?thesis by simp
qed

lemma load_all_data_complete:
  "r \<in> set (load_all_data gdf income_df black_df housing_df) \<Longrightarrow>
   \<not> isna (col_black_share r) \<and> \<not> isna (col_income r) \<and> \<not> isna (col_median_house_price r)"
  by (simp add: load_all_data_def complete_row_def)

lemma series_and_map: "series_and (map f xs) (map g xs) = map (\<lambda>x. f x \<and> g x) xs"
  by (induction xs) (simp_all add: series_and_def)

lemma mask_sum_count: "mask_sum m = length (filter (\<lambda>b. b) m)"
  by (induction m) (simp_all add: mask_sum_def)

lemma mask_map: "current_filter_mask gdf c = map (\<lambda>r. pf_ge (col_black_share r) (black_share_threshold c) \<and>
  pf_ge (col_income r) (income_threshold_value c) \<and> pf_le (col_median_house_price r) (housing_threshold_value c)) gdf"
  by (simp add: current_filter_mask_def series_and_map)

lemma count_sort: "length (filter P (sort xs)) = length (filter P xs)"
  by (simp add: filter_sort)

lemma prefix_count:
  assumes "lo < length s" and "\<forall>i \<le> lo. P (s ! i)"
  shows "Suc lo \<le> length (filter P s)"
proof -
  have "\<forall>x \<in> set (take (Suc lo) s). P x"
  proof
    fix x assume "x \<in> set (take (Suc lo) s)"
    then obtain i where "i < length (take (Suc lo) s)" "x = take (Suc lo) s ! i"
      by (auto simp: in_set_conv_nth)
    with assms show "P x" by simp
  qed
  then have "filter P (take (Suc lo) s) = take (Suc lo) s" by (simp add: filter_id_conv)
  moreover have "filter P s = filter P (take (Suc lo) s) @ filter P (drop (Suc lo) s)"
    by (metis append_take_drop_id filter_append)
  ultimately have "length (filter P s) = length (take (Suc lo) s) + length (filter P (drop (Suc lo) s))"
    by simp
  with assms(1) show ?thesis by simp
qed

lemma series_quantile_count:
  assumes ne: "xs \<noteq> []" and p0: "0 \<le> p" and p1: "p \<le> 1"
  shows "\<exists>q. series_quantile xs p = Fin q \<and>
             Suc (nat \<lfloor>p * of_nat (length xs - 1)\<rfloor>) \<le> length (filter (\<lambda>x. x \<le> q) xs)"
proof -
  define s where "s = sort xs"
  define n where "n = length s"
  define h where "h = p * of_nat (n - 1)"
  define lo where "lo = nat \<lfloor>h\<rfloor>"
  define hi where "hi = min (lo + 1) (n - 1)"
  define frac where "frac = h - of_nat lo"
  define q where "q = s ! lo + (s ! hi - s ! lo) * frac"
  have n: "0 < n" using ne by (simp add: n_def s_def)
  have srt: "sorted s" by (simp add: s_def)
  have h0: "0 \<le> h" unfolding h_def using p0 by simp
  have "h \<le> 1 * of_nat (n - 1)" unfolding h_def using p1 by (intro mult_right_mono) simp_all
  then have "h \<le> of_nat (n - 1)" by simp
  then have "\<lfloor>h\<rfloor> \<le> \<lfloor>of_nat (n - 1) :: rat\<rfloor>" by (rule floor_mono)
  then have "\<lfloor>h\<rfloor> \<le> int (n - 1)" by simp
  then have lo: "lo \<le> n - 1" unfolding lo_def by (simp add: nat_le_iff)
  have lo_lt: "lo < length s" using lo n unfolding n_def by linarith
  have "hi \<le> n - 1" unfolding hi_def by (rule min.cobounded2)
  then have hi_lt: "hi < length s" using n unfolding n_def by linarith
  have lo_hi: "lo \<le> hi" unfolding hi_def using lo by simp
  have mono: "s ! lo \<le> s ! hi" using srt lo_hi hi_lt by (rule sorted_nth_mono)
  have "0 \<le> \<lfloor>h\<rfloor>" using h0 by simp
  then have "(of_nat lo :: rat) = of_int \<lfloor>h\<rfloor>" unfolding lo_def by simp
  then have "(of_nat lo :: rat) \<le> h" by simp
  then have frac: "0 \<le> frac" unfolding frac_def by simp
  have "0 \<le> s ! hi - s ! lo" using mono by simp
  then have "0 \<le> (s ! hi - s ! lo) * frac" using frac by (rule mult_nonneg_nonneg)
  then have q: "s ! lo \<le> q" unfolding q_def by simp
  have "\<forall>i \<le> lo. s ! i \<le> q"
  proof (intro allI impI)
    fix i assume "i \<le> lo"
    with srt have "s ! i \<le> s ! lo" using lo_lt by (rule sorted_nth_mono)
    with q show "s ! i \<le> q" by simp
  qed
  with lo_lt have "Suc lo \<le> length (filter (\<lambda>x. x \<le> q) s)" by (rule prefix_count)
  then have cnt: "Suc lo \<le> length (filter (\<lambda>x. x \<le> q) xs)"
    unfolding s_def by (simp only: count_sort)
  have val: "series_quantile xs p = Fin q"
    using ne by (simp add: series_quantile_def Let_def q_def frac_def hi_def lo_def h_def n_def s_def)
  have "lo = nat \<lfloor>p * of_nat (length xs - 1)\<rfloor>"
    by (simp add: lo_def h_def n_def s_def)
  with cnt val show ?thesis by simp
qed

text \<open>The definitions that evaluate the census functions on a concrete table.\<close>

lemmas eval_defs =
  process_census_data_def is_msoa_def is_black_def startswith_def black_prefix_def
  geo_value_def groupby_sum_def merge_inner_def matches_def mk_pop_row_def
  load_black_population_def true_div_def pop_row.extend_def
  process_observations_def select_group_def black_label_def all_persons_data_def
  same_area_counts_def int64_add_def wrap64_def

section \<open>The claims\<close>

text \<open>
  C1. The membership mask is, row by row, true exactly when the group share is at least
  the share threshold, the income is at least the income threshold and the median house
  price is at most the price threshold (on finite numbers \<open>pf_ge\<close> and \<open>pf_le\<close> are
  \<open>\<ge>\<close> and \<open>\<le>\<close>), and the reported count is the number of true entries. For the three
  rows (0.20, 50000, 300000), (0.05, 60000, 200000), (0.30, 40000, 500000) and the
  thresholds 0.15, 45000 and 400000 the mask is [true, false, false] and the count is 1.
\<close>

theorem current_filter_mask_rowwise:
  "current_filter_mask gdf c =
     map (\<lambda>r. pf_ge (col_black_share r) (black_share_threshold c) \<and>
               pf_ge (col_income r) (income_threshold_value c) \<and>
               pf_le (col_median_house_price r) (housing_threshold_value c)) gdf \<and>
   mask_sum (current_filter_mask gdf c) = length (filter (\<lambda>b. b) (current_filter_mask gdf c)) \<and>
   pf_ge (Fin x) (Fin y) = (y \<le> x) \<and> pf_le (Fin x) (Fin y) = (x \<le> y) \<and>
   current_filter_mask
     [(''E02000001'', (((), Some (Fin 50000)),
         Some \<lparr>msoa = ''E02000001'', black_count = 20, population = 100, black_share = Fin (20 / 100)\<rparr>),
         Some (''Area 001'', Fin 300000)),
      (''E02000002'', (((), Some (Fin 60000)),
         Some \<lparr>msoa = ''E02000002'', black_count = 5, population = 100, black_share = Fin (5 / 100)\<rparr>),
         Some (''Area 002'', Fin 200000)),
      (''E02000003'', (((), Some (Fin 40000)),
         Some \<lparr>msoa = ''E02000003'', black_count = 30, population = 100, black_share = Fin (30 / 100)\<rparr>),
         Some (''Area 003'', Fin 500000))]
     \<lparr>black_share_threshold = Fin (15 / 100), income_threshold_value = Fin 45000,
      housing_threshold_value = Fin 400000\<rparr> = [True, False, False] \<and>
   mask_sum [True, False, False] = 1"
  by (simp add: mask_map mask_sum_count col_black_share_def col_income_def
      col_median_house_price_def pf_ge_def)

theorem current_filter_mask_rowwise_witness:
  "length (filter (\<lambda>b. b) (current_filter_mask
     [(''E02000001'', (((), Some (Fin 50000)),
         Some \<lparr>msoa = ''E02000001'', black_count = 20, population = 100, black_share = Fin (20 / 100)\<rparr>),
         Some (''Area 001'', Fin 300000)),
      (''E02000003'', (((), Some (Fin 40000)),
         Some \<lparr>msoa = ''E02000003'', black_count = 0, population = 0, black_share = PInf\<rparr>),
         Some (''Area 003'', Fin 300000))]
     \<lparr>black_share_threshold = Fin (15 / 100), income_threshold_value = Fin 40000,
      housing_threshold_value = Fin 400000\<rparr>)) = 2"
proof -
  let ?t = "[(''E02000001'', (((), Some (Fin 50000)),
         Some \<lparr>msoa = ''E02000001'', black_count = 20, population = 100, black_share = Fin (20 / 100)\<rparr>),
         Some (''Area 001'', Fin 300000)),
      (''E02000003'', (((), Some (Fin 40000)),
         Some \<lparr>msoa = ''E02000003'', black_count = 0, population = 0, black_share = PInf\<rparr>),
         Some (''Area 003'', Fin 300000))]"
  let ?c = "\<lparr>black_share_threshold = Fin (15 / 100), income_threshold_value = Fin 40000,
      housing_threshold_value = Fin 400000\<rparr>"
  from current_filter_mask_rowwise [of ?t ?c]
  have "current_filter_mask ?t ?c =
     map (\<lambda>r. pf_ge (col_black_share r) (black_share_threshold ?c) \<and>
               pf_ge (col_income r) (income_threshold_value ?c) \<and>
               pf_le (col_median_house_price r) (housing_threshold_value ?c)) ?t"
    by (rule conjunct1)
  then show ?thesis
    by (simp add: col_black_share_def col_income_def col_median_house_price_def pf_ge_def)
qed

text \<open>
  C2, as stated, fails: the boundaries table with one row and an income table that holds
  the same area code twice join to two rows, more than the smallest table has.
\<close>

theorem load_all_data_duplicate_key:
  "length (load_all_data
      [(''E02000001'', ())]
      [(''E02000001'', Fin 50000), (''E02000001'', Fin 51000)]
      [\<lparr>msoa = ''E02000001'', black_count = 50, population = 500, black_share = Fin (1 / 10)\<rparr>]
      [(''E02000001'', (''Area 001'', Fin 300000))]) = 2 \<and>
   min (length [(''E02000001'', ())])
     (min (length [(''E02000001'', Fin 50000), (''E02000001'', Fin 51000)])
       (min (length [\<lparr>msoa = ''E02000001'', black_count = 50, population = 500, black_share = Fin (1 / 10)\<rparr>])
            (length [(''E02000001'', (''Area 001'', Fin 300000))]))) = 1"
  by (simp add: load_all_data_def merge_left_def left_rows_def matches_def complete_row_def
      col_black_share_def col_income_def col_median_house_price_def)

text \<open>
  C2, amended. For all input tables, every row of the joined table has a group share,
  an income and a median house price that are not missing. When, moreover, the area
  codes are unique within each of the four input tables, the joined table has at most
  as many rows as the smallest of them.
\<close>

theorem load_all_data_unique_keys:
  "(\<forall>r \<in> set (load_all_data gdf income_df black_df housing_df).
      \<not> isna (col_black_share r) \<and> \<not> isna (col_income r) \<and> \<not> isna (col_median_house_price r)) \<and>
   (distinct (map fst gdf) \<and> distinct (map fst income_df) \<and>
    distinct (map msoa black_df) \<and> distinct (map fst housing_df) \<longrightarrow>
      length (load_all_data gdf income_df black_df housing_df)
        \<le> min (length gdf) (min (length income_df) (min (length black_df) (length housing_df))))"
  using load_all_data_rows [of gdf income_df black_df housing_df]
    load_all_data_complete [of _ gdf income_df black_df housing_df] by blast

theorem load_all_data_unique_keys_witness:
  "distinct (map fst [(''E02000001'', ()), (''E02000002'', ())]) \<and>
   distinct (map fst [(''E02000001'', Fin 50000), (''E02000002'', NaN)]) \<and>
   distinct (map msoa [\<lparr>msoa = ''E02000001'', black_count = 50, population = 500, black_share = Fin (1 / 10)\<rparr>]) \<and>
   distinct (map fst [(''E02000001'', (''Area 001'', Fin 300000)), (''E02000003'', (''Area 003'', Fin 250000))]) \<and>
   length (load_all_data
      [(''E02000001'', ()), (''E02000002'', ())]
      [(''E02000001'', Fin 50000), (''E02000002'', NaN)]
      [\<lparr>msoa = ''E02000001'', black_count = 50, population = 500, black_share = Fin (1 / 10)\<rparr>]
      [(''E02000001'', (''Area 001'', Fin 300000)), (''E02000003'', (''Area 003'', Fin 250000))]) \<le> 1 \<and>
   list_all (\<lambda>r. \<not> isna (col_black_share r) \<and> \<not> isna (col_income r) \<and>
                 \<not> isna (col_median_house_price r))
     (load_all_data
      [(''E02000001'', ()), (''E02000002'', ())]
      [(''E02000001'', Fin 50000), (''E02000002'', NaN)]
      [\<lparr>msoa = ''E02000001'', black_count = 50, population = 500, black_share = Fin (1 / 10)\<rparr>]
      [(''E02000001'', (''Area 001'', Fin 300000)), (''E02000003'', (''Area 003'', Fin 250000))]) \<and>
   load_all_data
      [(''E02000001'', ()), (''E02000002'', ())]
      [(''E02000001'', Fin 50000), (''E02000002'', NaN)]
      [\<lparr>msoa = ''E02000001'', black_count = 50, population = 500, black_share = Fin (1 / 10)\<rparr>]
      [(''E02000001'', (''Area 001'', Fin 300000)), (''E02000003'', (''Area 003'', Fin 250000))] \<noteq> []"
proof -
  let ?g = "[(''E02000001'', ()), (''E02000002'', ())]"
  let ?i = "[(''E02000001'', Fin 50000), (''E02000002'', NaN)]"
  let ?b = "[\<lparr>msoa = ''E02000001'', black_count = 50, population = 500, black_share = Fin (1 / 10)\<rparr>]"
  let ?h = "[(''E02000001'', (''Area 001'', Fin 300000)), (''E02000003'', (''Area 003'', Fin 250000))]"
  have d: "distinct (map fst ?g)" "distinct (map fst ?i)" "distinct (map msoa ?b)" "distinct (map fst ?h)"
    by simp_all
  note t = load_all_data_unique_keys [of ?g ?i ?b ?h]
  from t d
  have "length (load_all_data ?g ?i ?b ?h) \<le> min (length ?g) (min (length ?i) (min (length ?b) (length ?h)))"
    by blast
  then have l: "length (load_all_data ?g ?i ?b ?h) \<le> 1" by simp
  from t have c: "list_all (\<lambda>r. \<not> isna (col_black_share r) \<and> \<not> isna (col_income r) \<and>
                 \<not> isna (col_median_house_price r)) (load_all_data ?g ?i ?b ?h)"
    unfolding list_all_iff by (rule conjunct1)
  have n: "load_all_data ?g ?i ?b ?h \<noteq> []"
    by (simp add: load_all_data_def merge_left_def left_rows_def matches_def complete_row_def
      col_black_share_def col_income_def col_median_house_price_def)
  from d l c n show ?thesis by blast
qed

text \<open>
  C3, as stated, fails: no error is raised. A row with a population of zero gets an
  infinite group share (NaN when its count is zero too), and the statistics of an empty
  table are NaN.
\<close>

theorem division_by_zero_not_raised:
  "load_black_population [\<lparr>msoa = ''E02000001'', black_count = 5, population = 0\<rparr>] =
     [\<lparr>msoa = ''E02000001'', black_count = 5, population = 0, black_share = PInf\<rparr>] \<and>
   load_black_population [\<lparr>msoa = ''E02000001'', black_count = 0, population = 0\<rparr>] =
     [\<lparr>msoa = ''E02000001'', black_count = 0, population = 0, black_share = NaN\<rparr>] \<and>
   calculate_global_stats [] [] = (NaN, NaN)"
  by (simp add: load_black_population_def true_div_def pop_row.extend_def
      calculate_global_stats_def series_mean_def series_quantile_def)

text \<open>
  C3, amended. The share computation keeps every row and raises nothing: a row whose
  population is zero gets the share +infinity, -infinity or NaN as its count is positive,
  negative or zero. The statistics of an empty table are both NaN, and raise nothing.
\<close>

theorem special_values_returned:
  "length (load_black_population df) = length df \<and>
   (\<forall>s \<in> set (load_black_population df).
      population s = 0 \<longrightarrow>
        black_share s = (if 0 < black_count s then PInf else if black_count s < 0 then NInf else NaN)) \<and>
   calculate_global_stats [] [] = (NaN, NaN)"
  by (auto simp: load_black_population_def true_div_def pop_row.extend_def
      calculate_global_stats_def series_mean_def series_quantile_def Let_def)

theorem special_values_returned_witness:
  "black_share (hd (load_black_population [\<lparr>msoa = ''E02000001'', black_count = 5, population = 0\<rparr>])) = PInf \<and>
   length (load_black_population [\<lparr>msoa = ''E02000001'', black_count = 5, population = 0\<rparr>]) = 1"
proof -
  let ?df = "[\<lparr>msoa = ''E02000001'', black_count = 5, population = 0\<rparr>]"
  let ?s = "hd (load_black_population ?df)"
  have m: "?s \<in> set (load_black_population ?df)" by (simp add: load_black_population_def)
  have p: "population ?s = 0" "0 < black_count ?s"
    by (simp_all add: load_black_population_def pop_row.extend_def)
  from special_values_returned [of ?df] m p
  show ?thesis by simp
qed

text \<open>
  C4, as stated, fails: the sums are taken in int64 and wrap around. For the two rows
  (E02000001, Black ...: African, 9223372036854775807) and (E02000001, White: English,
  1), whose observations add up to 9223372036854775808, the population of the area is
  -9223372036854775808.
\<close>

theorem process_census_data_int64_overflow:
  "process_census_data
     [\<lparr>geo_code = ''E02000001'',
        ethnic_group = ''Black, Black British, Black Welsh, Caribbean or African: African'',
        observation = 9223372036854775807\<rparr>,
      \<lparr>geo_code = ''E02000001'', ethnic_group = ''White: English'', observation = 1\<rparr>] =
     [\<lparr>msoa = ''E02000001'', black_count = 9223372036854775807,
       population = - 9223372036854775808\<rparr>] \<and>
   sum_list (map observation
     [\<lparr>geo_code = ''E02000001'',
        ethnic_group = ''Black, Black British, Black Welsh, Caribbean or African: African'',
        observation = 9223372036854775807\<rparr>,
      \<lparr>geo_code = ''E02000001'', ethnic_group = ''White: English'', observation = 1\<rparr>]) = 9223372036854775808"
  by (simp add: eval_defs)

text \<open>
  C4, amended. Let every observation of the census file be an int64 value. The result
  has one row for every area whose code starts with \<open>E02\<close> and that has a row of the
  tracked group, in ascending order of the codes; its \<open>population\<close> is the sum of the
  observations of all the rows of the area and its \<open>black_count\<close> the sum of the
  observations of the rows of the area whose category starts with the group's prefix,
  both reduced to the int64 range by wrap-around. When, for each of these areas, the
  two sums lie in the int64 range, they are the population and the count as they are.
  For the two rows (E02000001, Black ...: African, 50) and (E02000001, White: English,
  450), the group's label written in full, the population is 500 and the count 50, and
  the share computed from them is 0.10.
\<close>

theorem process_census_data_sums:
  assumes "\<forall>r \<in> set df. - 9223372036854775808 \<le> observation r \<and> observation r < 9223372036854775808"
  shows "process_census_data df =
     map (\<lambda>a. \<lparr>msoa = a,
                black_count = wrap64 (sum_list (map observation (filter (\<lambda>r. geo_code r = a \<and> is_black r) df))),
                population = wrap64 (sum_list (map observation (filter (\<lambda>r. geo_code r = a) df)))\<rparr>)
         (sorted_list_of_set (geo_code ` set (filter (\<lambda>r. is_msoa r \<and> is_black r) df))) \<and>
   ((\<forall>a \<in> geo_code ` set (filter (\<lambda>r. is_msoa r \<and> is_black r) df).
       - 9223372036854775808 \<le> sum_list (map observation (filter (\<lambda>r. geo_code r = a \<and> is_black r) df)) \<and>
       sum_list (map observation (filter (\<lambda>r. geo_code r = a \<and> is_black r) df)) < 9223372036854775808 \<and>
       - 9223372036854775808 \<le> sum_list (map observation (filter (\<lambda>r. geo_code r = a) df)) \<and>
       sum_list (map observation (filter (\<lambda>r. geo_code r = a) df)) < 9223372036854775808) \<longrightarrow>
    process_census_data df =
     map (\<lambda>a. \<lparr>msoa = a,
                black_count = sum_list (map observation (filter (\<lambda>r. geo_code r = a \<and> is_black r) df)),
                population = sum_list (map observation (filter (\<lambda>r. geo_code r = a) df))\<rparr>)
         (sorted_list_of_set (geo_code ` set (filter (\<lambda>r. is_msoa r \<and> is_black r) df)))) \<and>
   process_census_data
     [\<lparr>geo_code = ''E02000001'',
        ethnic_group = ''Black, Black British, Black Welsh, Caribbean or African: African'',
        observation = 50\<rparr>,
      \<lparr>geo_code = ''E02000001'', ethnic_group = ''White: English'', observation = 450\<rparr>] =
     [\<lparr>msoa = ''E02000001'', black_count = 50, population = 500\<rparr>] \<and>
   load_black_population [\<lparr>msoa = ''E02000001'', black_count = 50, population = 500\<rparr>] =
     [\<lparr>msoa = ''E02000001'', black_count = 50, population = 500, black_share = Fin (10 / 100)\<rparr>]"
proof -
  have "process_census_data
     [\<lparr>geo_code = ''E02000001'',
        ethnic_group = ''Black, Black British, Black Welsh, Caribbean or African: African'',
        observation = 50\<rparr>,
      \<lparr>geo_code = ''E02000001'', ethnic_group = ''White: English'', observation = 450\<rparr>] =
     [\<lparr>msoa = ''E02000001'', black_count = 50, population = 500\<rparr>]"
    by (simp add: eval_defs)
  moreover have "load_black_population [\<lparr>msoa = ''E02000001'', black_count = 50, population = 500\<rparr>] =
     [\<lparr>msoa = ''E02000001'', black_count = 50, population = 500, black_share = Fin (10 / 100)\<rparr>]"
    by (simp add: eval_defs)
  ultimately show ?thesis
    using process_census_data_eq [of df] process_census_data_exact [of df] by blast
qed

theorem process_census_data_sums_witness:
  "list_all (\<lambda>r. - 9223372036854775808 \<le> observation r \<and> observation r < 9223372036854775808)
     [\<lparr>geo_code = ''E02000002'', ethnic_group = ''White: English'', observation = 300\<rparr>,
      \<lparr>geo_code = ''E02000002'',
        ethnic_group = ''Black, Black British, Black Welsh, Caribbean or African: Caribbean'',
        observation = 30\<rparr>,
      \<lparr>geo_code = ''E02000002'',
        ethnic_group = ''Black, Black British, Black Welsh, Caribbean or African: African'',
        observation = 20\<rparr>] \<and>
   map population (process_census_data
     [\<lparr>geo_code = ''E02000002'', ethnic_group = ''White: English'', observation = 300\<rparr>,
      \<lparr>geo_code = ''E02000002'',
        ethnic_group = ''Black, Black British, Black Welsh, Caribbean or African: Caribbean'',
        observation = 30\<rparr>,
      \<lparr>geo_code = ''E02000002'',
        ethnic_group = ''Black, Black British, Black Welsh, Caribbean or African: African'',
        observation = 20\<rparr>]) = [350] \<and>
   map black_count (process_census_data
     [\<lparr>geo_code = ''E02000002'', ethnic_group = ''White: English'', observation = 300\<rparr>,
      \<lparr>geo_code = ''E02000002'',
        ethnic_group = ''Black, Black British, Black Welsh, Caribbean or African: Caribbean'',
        observation = 30\<rparr>,
      \<lparr>geo_code = ''E02000002'',
        ethnic_group = ''Black, Black British, Black Welsh, Caribbean or African: African'',
        observation = 20\<rparr>]) = [50]"
proof -
  let ?df = "[\<lparr>geo_code = ''E02000002'', ethnic_group = ''White: English'', observation = 300\<rparr>,
      \<lparr>geo_code = ''E02000002'',
        ethnic_group = ''Black, Black British, Black Welsh, Caribbean or African: Caribbean'',
        observation = 30\<rparr>,
      \<lparr>geo_code = ''E02000002'',
        ethnic_group = ''Black, Black British, Black Welsh, Caribbean or African: African'',
        observation = 20\<rparr>]"
  have h: "\<forall>r \<in> set ?df. - 9223372036854775808 \<le> observation r \<and> observation r < 9223372036854775808"
    by simp
  have k: "geo_code ` set (filter (\<lambda>r. is_msoa r \<and> is_black r) ?df) = {''E02000002''}"
    by (simp add: eval_defs)
  have r: "\<forall>a \<in> geo_code ` set (filter (\<lambda>r. is_msoa r \<and> is_black r) ?df).
       - 9223372036854775808 \<le> sum_list (map observation (filter (\<lambda>r. geo_code r = a \<and> is_black r) ?df)) \<and>
       sum_list (map observation (filter (\<lambda>r. geo_code r = a \<and> is_black r) ?df)) < 9223372036854775808 \<and>
       - 9223372036854775808 \<le> sum_list (map observation (filter (\<lambda>r. geo_code r = a) ?df)) \<and>
       sum_list (map observation (filter (\<lambda>r. geo_code r = a) ?df)) < 9223372036854775808"
    unfolding k by (simp add: is_black_def startswith_def black_prefix_def)
  from process_census_data_sums [OF h] r
  have "process_census_data ?df =
     map (\<lambda>a. \<lparr>msoa = a,
                black_count = sum_list (map observation (filter (\<lambda>r. geo_code r = a \<and> is_black r) ?df)),
                population = sum_list (map observation (filter (\<lambda>r. geo_code r = a) ?df))\<rparr>)
         (sorted_list_of_set (geo_code ` set (filter (\<lambda>r. is_msoa r \<and> is_black r) ?df)))"
    by blast
  then have "process_census_data ?df =
     map (\<lambda>a. \<lparr>msoa = a,
                black_count = sum_list (map observation (filter (\<lambda>r. geo_code r = a \<and> is_black r) ?df)),
                population = sum_list (map observation (filter (\<lambda>r. geo_code r = a) ?df))\<rparr>)
         [''E02000002'']"
    unfolding k by simp
  then show ?thesis by (simp add: is_black_def startswith_def black_prefix_def)
qed

text \<open>
  C5, as stated, fails: for the two rows (E02000001, Black ...: African,
  9223372036854775807) and (E02000001, White: English, 1), none negative, the int64
  sum of the area wraps around to a negative population, the count is larger than the
  population and the share is negative.
\<close>

theorem group_share_negative_on_overflow:
  "list_all (\<lambda>r. 0 \<le> observation r)
     [\<lparr>geo_code = ''E02000001'',
        ethnic_group = ''Black, Black British, Black Welsh, Caribbean or African: African'',
        observation = 9223372036854775807\<rparr>,
      \<lparr>geo_code = ''E02000001'', ethnic_group = ''White: English'', observation = 1\<rparr>] \<and>
   load_black_population (process_census_data
     [\<lparr>geo_code = ''E02000001'',
        ethnic_group = ''Black, Black British, Black Welsh, Caribbean or African: African'',
        observation = 9223372036854775807\<rparr>,
      \<lparr>geo_code = ''E02000001'', ethnic_group = ''White: English'', observation = 1\<rparr>]) =
     [\<lparr>msoa = ''E02000001'', black_count = 9223372036854775807,
       population = - 9223372036854775808,
       black_share = Fin (- (9223372036854775807 / 9223372036854775808))\<rparr>] \<and>
   - (9223372036854775807 / 9223372036854775808) < (0 :: rat)"
  by (simp add: eval_defs)

text \<open>
  C5, amended. When no observation of the census file is negative and the observations
  of each area add up to less than \<open>2^63\<close> (so that no int64 sum wraps around), every
  row of the population table computed from it has a count between 0 and its
  population, and, when its population is not zero, a share that is a finite number in
  [0, 1].
\<close>

theorem group_share_in_unit_interval:
  assumes nonneg: "\<forall>r \<in> set df. 0 \<le> observation r"
    and bounded: "\<forall>a \<in> geo_code ` set df.
                    sum_list (map observation (filter (\<lambda>r. geo_code r = a) df)) < 9223372036854775808"
  shows "\<forall>s \<in> set (load_black_population (process_census_data df)).
           0 \<le> black_count s \<and> black_count s \<le> population s \<and>
           (population s \<noteq> 0 \<longrightarrow> (\<exists>q. black_share s = Fin q \<and> 0 \<le> q \<and> q \<le> 1))"
proof
  fix s assume "s \<in> set (load_black_population (process_census_data df))"
  then obtain p where p: "p \<in> set (process_census_data df)"
    and s: "s = pop_row.extend p \<lparr>black_share = true_div (black_count p) (population p)\<rparr>"
    by (auto simp: load_black_population_def)
  from counts_bounded [OF nonneg bounded p]
  have b: "0 \<le> black_count p" "black_count p \<le> population p"
    by simp_all
  have f: "black_count s = black_count p" "population s = population p"
    "black_share s = true_div (black_count p) (population p)"
    unfolding s by (simp_all add: pop_row.extend_def)
  show "0 \<le> black_count s \<and> black_count s \<le> population s \<and>
           (population s \<noteq> 0 \<longrightarrow> (\<exists>q. black_share s = Fin q \<and> 0 \<le> q \<and> q \<le> 1))"
    unfolding f using b true_div_unit [of "black_count p" "population p"] by blast
qed

theorem group_share_in_unit_interval_witness:
  "list_all (\<lambda>r. 0 \<le> observation r)
     [\<lparr>geo_code = ''E02000001'',
        ethnic_group = ''Black, Black British, Black Welsh, Caribbean or African: African'',
        observation = 50\<rparr>,
      \<lparr>geo_code = ''E02000001'', ethnic_group = ''White: English'', observation = 450\<rparr>] \<and>
   list_all (\<lambda>a. sum_list (map observation (filter (\<lambda>r. geo_code r = a)
     [\<lparr>geo_code = ''E02000001'',
        ethnic_group = ''Black, Black British, Black Welsh, Caribbean or African: African'',
        observation = 50\<rparr>,
      \<lparr>geo_code = ''E02000001'', ethnic_group = ''White: English'', observation = 450\<rparr>])) < 9223372036854775808)
     (map geo_code
     [\<lparr>geo_code = ''E02000001'',
        ethnic_group = ''Black, Black British, Black Welsh, Caribbean or African: African'',
        observation = 50\<rparr>,
      \<lparr>geo_code = ''E02000001'', ethnic_group = ''White: English'', observation = 450\<rparr>]) \<and>
   list_all (\<lambda>s. population s \<noteq> 0 \<and> black_count s \<le> population s \<and>
                 (\<exists>q. black_share s = Fin q \<and> 0 \<le> q \<and> q \<le> 1))
     (load_black_population (process_census_data
     [\<lparr>geo_code = ''E02000001'',
        ethnic_group = ''Black, Black British, Black Welsh, Caribbean or African: African'',
        observation = 50\<rparr>,
      \<lparr>geo_code = ''E02000001'', ethnic_group = ''White: English'', observation = 450\<rparr>])) \<and>
   load_black_population (process_census_data
     [\<lparr>geo_code = ''E02000001'',
        ethnic_group = ''Black, Black British, Black Welsh, Caribbean or African: African'',
        observation = 50\<rparr>,
      \<lparr>geo_code = ''E02000001'', ethnic_group = ''White: English'', observation = 450\<rparr>]) \<noteq> []"
proof -
  let ?df = "[\<lparr>geo_code = ''E02000001'',
        ethnic_group = ''Black, Black British, Black Welsh, Caribbean or African: African'',
        observation = 50\<rparr>,
      \<lparr>geo_code = ''E02000001'', ethnic_group = ''White: English'', observation = 450\<rparr>]"
  have h: "\<forall>r \<in> set ?df. 0 \<le> observation r" by simp
  have h2: "\<forall>a \<in> geo_code ` set ?df.
      sum_list (map observation (filter (\<lambda>r. geo_code r = a) ?df)) < 9223372036854775808"
    by simp
  have e: "load_black_population (process_census_data ?df) =
      [\<lparr>msoa = ''E02000001'', black_count = 50, population = 500, black_share = Fin (1 / 10)\<rparr>]"
    by (simp add: eval_defs)
  from group_share_in_unit_interval [OF h h2] show ?thesis unfolding e by simp
qed



text \<open>
  C6, as stated, fails: for the two prices 100 and 200 the 65th percentile is 165, and
  one row of two, 50 per cent, has a price at most 165.
\<close>

theorem percentile_65_below_share:
  "snd (calculate_global_stats [40000, 50000] [100, 200]) = Fin 165 \<and>
   length (filter (\<lambda>x. x \<le> 165) [100, 200 :: rat]) = 1 \<and>
   \<not> (65 / 100 * rat_of_nat (length [100, 200 :: rat])
        \<le> rat_of_nat (length (filter (\<lambda>x. x \<le> 165) [100, 200 :: rat])))"
proof -
  have fl: "\<lfloor>13 / 20 :: rat\<rfloor> = 0" by (simp add: floor_eq_iff)
  show ?thesis by (simp add: calculate_global_stats_def series_quantile_def fl)
qed

text \<open>
  C6, amended. For a non-empty table of \<open>n\<close> rows the 65th percentile is a finite number,
  and at least \<open>floor (0.65 * (n - 1)) + 1\<close> of the rows have a price at most the
  percentile.
\<close>

theorem percentile_65_order_statistic:
  assumes "housing_series \<noteq> []"
  shows "\<exists>q. snd (calculate_global_stats income_series housing_series) = Fin q \<and>
             Suc (nat \<lfloor>65 / 100 * rat_of_nat (length housing_series - 1)\<rfloor>)
               \<le> length (filter (\<lambda>x. x \<le> q) housing_series)"
proof -
  have "(0::rat) \<le> 65 / 100" "(65::rat) / 100 \<le> 1" by simp_all
  from series_quantile_count [OF assms this] show ?thesis
    by (simp add: calculate_global_stats_def)
qed

theorem percentile_65_order_statistic_witness:
  "[100, 200, 300 :: rat] \<noteq> [] \<and>
   (\<exists>q. snd (calculate_global_stats [] [100, 200, 300]) = Fin q \<and>
        2 \<le> length (filter (\<lambda>x. x \<le> q) [100, 200, 300 :: rat]))"
proof -
  have n: "[100, 200, 300 :: rat] \<noteq> []" by simp
  have fl: "\<lfloor>13 / 10 :: rat\<rfloor> = 1" by (simp add: floor_eq_iff)
  have e: "Suc (nat \<lfloor>65 / 100 * rat_of_nat (length [100, 200, 300 :: rat] - 1)\<rfloor>) = 2"
    by (simp add: fl)
  from percentile_65_order_statistic [OF n, of "[]"]
  obtain q where q: "snd (calculate_global_stats [] [100, 200, 300]) = Fin q"
    and c: "Suc (nat \<lfloor>65 / 100 * rat_of_nat (length [100, 200, 300 :: rat] - 1)\<rfloor>)
              \<le> length (filter (\<lambda>x. x \<le> q) [100, 200, 300 :: rat])"
    by blast
  from c e have "2 \<le> length (filter (\<lambda>x. x \<le> q) [100, 200, 300 :: rat])" by linarith
  with q n show ?thesis by blast
qed

text \<open>
  C7. The selection fails exactly when the archive has no candidate, that is no member
  that is a shape file (\<open>.shp\<close>) whose name holds both tokens \<open>msoa\<close> and \<open>london\<close>,
  compared in lower case, and then with RuntimeError. Otherwise it returns a member of
  the archive that is such a candidate, so its lower-cased name holds both tokens as
  substrings, and no candidate has a shorter name.
\<close>

theorem search_shp_member_spec:
  "(search_shp_member namelist = Inl RuntimeError \<longleftrightarrow> \<not> (\<exists>m \<in> set namelist. is_candidate m)) \<and>
   (\<forall>e. search_shp_member namelist = Inl e \<longrightarrow> e = RuntimeError) \<and>
   (\<forall>c. search_shp_member namelist = Inr c \<longrightarrow>
      c \<in> set namelist \<and> is_candidate c \<and>
      (\<exists>u t. lower c = u @ ''msoa'' @ t) \<and> (\<exists>u t. lower c = u @ ''london'' @ t) \<and>
      (\<forall>m \<in> set namelist. is_candidate m \<longrightarrow> length c \<le> length m))"
proof -
  let ?cands = "filter is_candidate namelist"
  show ?thesis
  proof (cases ?cands)
    case Nil
    then have none: "\<not> (\<exists>m \<in> set namelist. is_candidate m)"
      by (simp add: filter_empty_conv)
    from Nil have "search_shp_member namelist = Inl RuntimeError"
      by (simp add: search_shp_member_def)
    with none show ?thesis by simp
  next
    case (Cons c cs)
    let ?r = "min_by_len c cs"
    from Cons have res: "search_shp_member namelist = Inr ?r"
      by (simp add: search_shp_member_def)
    have "?r \<in> set ?cands" using min_by_len_mem [of c cs] Cons by simp
    then have mem: "?r \<in> set namelist" and cand: "is_candidate ?r" by auto
    have some: "\<exists>m \<in> set namelist. is_candidate m" using mem cand by blast
    have tok1: "\<exists>u t. lower ?r = u @ ''msoa'' @ t"
      using cand unfolding is_candidate_def contains_iff by blast
    have tok2: "\<exists>u t. lower ?r = u @ ''london'' @ t"
      using cand unfolding is_candidate_def contains_iff by blast
    have least: "\<forall>m \<in> set namelist. is_candidate m \<longrightarrow> length ?r \<le> length m"
    proof (intro ballI impI)
      fix m assume "m \<in> set namelist" "is_candidate m"
      then have "m \<in> set ?cands" by simp
      then have "m \<in> set (c # cs)" using Cons by simp
      then show "length ?r \<le> length m" by (rule min_by_len_le)
    qed
    show ?thesis unfolding res using mem cand some tok1 tok2 least by simp
  qed
qed

theorem search_shp_member_spec_witness:
  "search_shp_member [''readme.txt'', ''ESRI/MSOA_2011_London_gen_MHW.shp'',
      ''ESRI/MSOA_2011_London_gen_MHW.dbf'', ''ESRI/London_MSOA.shp''] = Inr ''ESRI/London_MSOA.shp'' \<and>
   is_candidate ''ESRI/London_MSOA.shp'' \<and>
   search_shp_member [''readme.txt'', ''london_msoa.dbf''] = Inl RuntimeError"
proof -
  have a: "search_shp_member [''readme.txt'', ''ESRI/MSOA_2011_London_gen_MHW.shp'',
      ''ESRI/MSOA_2011_London_gen_MHW.dbf'', ''ESRI/London_MSOA.shp''] = Inr ''ESRI/London_MSOA.shp''"
    by (simp add: search_shp_member_def is_candidate_def lower_def lower_char_def
        endswith_def startswith_def)
  have b: "\<not> (\<exists>m \<in> set [''readme.txt'', ''london_msoa.dbf'']. is_candidate m)"
    by (simp add: is_candidate_def lower_def lower_char_def endswith_def)
  from search_shp_member_spec [of "[''readme.txt'', ''ESRI/MSOA_2011_London_gen_MHW.shp'',
      ''ESRI/MSOA_2011_London_gen_MHW.dbf'', ''ESRI/London_MSOA.shp'']"] a
  have c: "is_candidate ''ESRI/London_MSOA.shp''" by simp
  from search_shp_member_spec [of "[''readme.txt'', ''london_msoa.dbf'']"] b
  have d: "search_shp_member [''readme.txt'', ''london_msoa.dbf''] = Inl RuntimeError" by blast
  from a c d show ?thesis by simp
qed

text \<open>
  C8, as stated, fails: for an area of Wales (code \<open>W02000001\<close>) the observations and
  the census file describe the same counts, the download path returns the row of the
  area, and the local path, which keeps the codes starting with \<open>E02\<close> only, returns
  no row.
\<close>

theorem paths_disagree_outside_england:
  "same_area_counts
      [\<lparr>sex_label = ''All persons'', geography_id = ''W02000001'',
         ethnic_label = ''All ethnic groups'', obs_count = Some 100\<rparr>,
       \<lparr>sex_label = ''All persons'', geography_id = ''W02000001'',
         ethnic_label = ''Black, Black British, Black Welsh, Caribbean or African'', obs_count = Some 5\<rparr>]
      [\<lparr>geo_code = ''W02000001'',
         ethnic_group = ''Black, Black British, Black Welsh, Caribbean or African: African'',
         observation = 5\<rparr>,
       \<lparr>geo_code = ''W02000001'', ethnic_group = ''White: Welsh'', observation = 95\<rparr>] \<and>
   process_observations
      [\<lparr>sex_label = ''All persons'', geography_id = ''W02000001'',
         ethnic_label = ''All ethnic groups'', obs_count = Some 100\<rparr>,
       \<lparr>sex_label = ''All persons'', geography_id = ''W02000001'',
         ethnic_label = ''Black, Black British, Black Welsh, Caribbean or African'', obs_count = Some 5\<rparr>]
     = Inr [\<lparr>msoa = ''W02000001'', black_count = 5, population = 100\<rparr>] \<and>
   process_census_data
      [\<lparr>geo_code = ''W02000001'',
         ethnic_group = ''Black, Black British, Black Welsh, Caribbean or African: African'',
         observation = 5\<rparr>,
       \<lparr>geo_code = ''W02000001'', ethnic_group = ''White: Welsh'', observation = 95\<rparr>] = []"
  by (simp add: eval_defs)

text \<open>
  C8, amended. Suppose the observations describe the same per-area counts as the census
  file and, among the observations for all persons, every count is an integer, there
  is at least one observation, the rows labelled exactly with the group come once per
  area, for exactly the areas with an \<open>E02\<close> code that have a row of the group in
  the census file, and each of these areas has exactly one row labelled
  \<open>All ethnic groups\<close>, no area having two. Suppose also that every observation of
  the census file is an int64 value and that, for each of these areas, the observations
  of the area and those of its rows of the group add up to sums in the int64 range (so
  that no int64 sum of the local path wraps around). Then the download path returns the
  rows of the local path's table, one per area, and exactly the local path's table when
  its rows come in ascending order of the area codes.
\<close>

theorem paths_agree:
  assumes same: "same_area_counts obs df"
    and ints: "\<forall>ob \<in> set obs. sex_label ob = ''All persons'' \<longrightarrow> obs_count ob \<noteq> None"
    and some: "\<exists>ob \<in> set obs. sex_label ob = ''All persons''"
    and bdistinct: "distinct (map fst (select_group black_label (all_persons_data obs)))"
    and tdistinct: "distinct (map fst (select_group ''All ethnic groups'' (all_persons_data obs)))"
    and bareas: "fst ` set (select_group black_label (all_persons_data obs)) =
                 geo_code ` set (filter (\<lambda>r. is_msoa r \<and> is_black r) df)"
    and tareas: "fst ` set (select_group black_label (all_persons_data obs)) \<subseteq>
                 fst ` set (select_group ''All ethnic groups'' (all_persons_data obs))"
    and cells: "\<forall>r \<in> set df. - 9223372036854775808 \<le> observation r \<and> observation r < 9223372036854775808"
    and inrange: "\<forall>a \<in> geo_code ` set (filter (\<lambda>r. is_msoa r \<and> is_black r) df).
       - 9223372036854775808 \<le> sum_list (map observation (filter (\<lambda>r. geo_code r = a \<and> is_black r) df)) \<and>
       sum_list (map observation (filter (\<lambda>r. geo_code r = a \<and> is_black r) df)) < 9223372036854775808 \<and>
       - 9223372036854775808 \<le> sum_list (map observation (filter (\<lambda>r. geo_code r = a) df)) \<and>
       sum_list (map observation (filter (\<lambda>r. geo_code r = a) df)) < 9223372036854775808"
  shows "\<exists>rows. process_observations obs = Inr rows \<and>
           set rows = set (process_census_data df) \<and>
           distinct (map msoa rows) \<and>
           (sorted (map msoa rows) \<longrightarrow> rows = process_census_data df)"
proof -
  define D where "D = all_persons_data obs"
  define B where "B = select_group black_label D"
  define T where "T = select_group ''All ethnic groups'' D"
  define S where "S = geo_code ` set (filter (\<lambda>r. is_msoa r \<and> is_black r) df)"
  define keys where "keys = sorted_list_of_set S"
  define api_row where
    "api_row = (\<lambda>k. \<lparr>msoa = k, black_count = sum_list (matches k B),
                       population = sum_list (matches k T)\<rparr>)"
  define csv_row where
    "csv_row = (\<lambda>a. \<lparr>msoa = a,
        black_count = sum_list (map observation (filter (\<lambda>r. geo_code r = a \<and> is_black r) df)),
        population = sum_list (map observation (filter (\<lambda>r. geo_code r = a) df))\<rparr>)"
  define rows where "rows = map api_row (map fst B)"
  have fin: "finite S" unfolding S_def by simp
  have c: "collect obs = Inr D" unfolding D_def using ints by (rule collect_all_persons)
  have ne: "D \<noteq> []" unfolding D_def using some by (rule all_persons_data_nonempty)
  have po: "process_observations obs = Inr (map mk_pop_row (merge_inner B T))"
    by (simp add: process_observations_def c ne B_def T_def)
  have td: "distinct (map fst T)" unfolding T_def D_def by (rule tdistinct)
  have bt: "fst ` set B \<subseteq> fst ` set T" unfolding B_def T_def D_def by (rule tareas)
  have bd: "distinct (map fst B)" unfolding B_def D_def by (rule bdistinct)
  have bS: "set (map fst B) = S" unfolding B_def D_def S_def using bareas by simp
  have local: "process_census_data df = map csv_row keys"
    unfolding keys_def S_def csv_row_def using inrange by (rule process_census_data_exact)
  have mi: "merge_inner B T = map (\<lambda>(k, a). (k, a, sum_list (matches k T))) B"
    using td bt by (rule merge_inner_unique)
  have "\<forall>(k, v) \<in> set B. sum_list (matches k B) = v"
  proof (clarify)
    fix k v assume "(k, v) \<in> set B"
    with bd have "matches k B = [v]" by (rule matches_distinct)
    then show "sum_list (matches k B) = v" by simp
  qed
  then have "map (\<lambda>k. (k, sum_list (matches k B))) (map fst B) = B" by (rule rebuild_from_keys)
  then have "merge_inner B T =
      map (\<lambda>(k, a). (k, a, sum_list (matches k T))) (map (\<lambda>k. (k, sum_list (matches k B))) (map fst B))"
    unfolding mi by simp
  then have "map mk_pop_row (merge_inner B T) = rows"
    unfolding rows_def api_row_def by (simp add: mk_pop_row_def o_def)
  with po have res: "process_observations obs = Inr rows" by simp
  have agree: "api_row a = csv_row a" if "a \<in> S" for a
  proof -
    from that have "a \<in> geo_code ` set df" unfolding S_def by auto
    then have "a \<in> set (map geography_id obs) \<union> set (map geo_code df)" by simp
    with same have
      "sum_list (matches a (select_group ''All ethnic groups'' (all_persons_data obs))) =
          sum_list (map observation (filter (\<lambda>r. geo_code r = a) df)) \<and>
       sum_list (matches a (select_group black_label (all_persons_data obs))) =
          sum_list (map observation (filter (\<lambda>r. geo_code r = a \<and> is_black r) df))"
      unfolding same_area_counts_def by (rule bspec)
    then show ?thesis by (simp add: api_row_def csv_row_def B_def T_def D_def)
  qed
  have "set rows = api_row ` S" unfolding rows_def using bS by (metis set_map)
  also have "\<dots> = csv_row ` S" using agree by (rule image_cong [OF refl])
  also have "\<dots> = set (process_census_data df)"
    unfolding local keys_def using fin by simp
  finally have sets: "set rows = set (process_census_data df)" .
  have names: "map msoa rows = map fst B"
    unfolding rows_def api_row_def by (simp add: o_def)
  have dist: "distinct (map msoa rows)" unfolding names by (rule bd)
  have ordered: "rows = process_census_data df" if "sorted (map msoa rows)"
  proof -
    from that have "sorted (map fst B)" unfolding names .
    then have "sorted_list_of_set (set (map fst B)) = map fst B"
      using bd by (rule sorted_list_of_set.idem_if_sorted_distinct)
    then have bk: "map fst B = keys" unfolding keys_def bS by simp
    have "map api_row keys = map csv_row keys"
    proof (rule map_cong [OF refl])
      fix a assume "a \<in> set keys"
      then have "a \<in> S" unfolding keys_def using fin by simp
      then show "api_row a = csv_row a" by (rule agree)
    qed
    then show ?thesis unfolding rows_def bk local .
  qed
  from res sets dist ordered show ?thesis by blast
qed

theorem paths_agree_witness:
  "same_area_counts
     [\<lparr>sex_label = ''All persons'', geography_id = ''E02000001'',
        ethnic_label = ''All ethnic groups'', obs_count = Some 500\<rparr>,
      \<lparr>sex_label = ''All persons'', geography_id = ''E02000001'',
        ethnic_label = ''Black, Black British, Black Welsh, Caribbean or African'', obs_count = Some 50\<rparr>,
      \<lparr>sex_label = ''Female'', geography_id = ''E02000001'',
        ethnic_label = ''All ethnic groups'', obs_count = Some 260\<rparr>]
     [\<lparr>geo_code = ''E02000001'',
        ethnic_group = ''Black, Black British, Black Welsh, Caribbean or African: African'',
        observation = 50\<rparr>,
      \<lparr>geo_code = ''E02000001'', ethnic_group = ''White: English'', observation = 450\<rparr>] \<and>
   list_all (\<lambda>r. - 9223372036854775808 \<le> observation r \<and> observation r < 9223372036854775808)
     [\<lparr>geo_code = ''E02000001'',
        ethnic_group = ''Black, Black British, Black Welsh, Caribbean or African: African'',
        observation = 50\<rparr>,
      \<lparr>geo_code = ''E02000001'', ethnic_group = ''White: English'', observation = 450\<rparr>] \<and>
   (\<exists>rows. process_observations
     [\<lparr>sex_label = ''All persons'', geography_id = ''E02000001'',
        ethnic_label = ''All ethnic groups'', obs_count = Some 500\<rparr>,
      \<lparr>sex_label = ''All persons'', geography_id = ''E02000001'',
        ethnic_label = ''Black, Black British, Black Welsh, Caribbean or African'', obs_count = Some 50\<rparr>,
      \<lparr>sex_label = ''Female'', geography_id = ''E02000001'',
        ethnic_label = ''All ethnic groups'', obs_count = Some 260\<rparr>] = Inr rows \<and>
      sorted (map msoa rows) \<and>
      rows = process_census_data
       [\<lparr>geo_code = ''E02000001'',
          ethnic_group = ''Black, Black British, Black Welsh, Caribbean or African: African'',
          observation = 50\<rparr>,
        \<lparr>geo_code = ''E02000001'', ethnic_group = ''White: English'', observation = 450\<rparr>]) \<and>
   process_census_data
     [\<lparr>geo_code = ''E02000001'',
        ethnic_group = ''Black, Black British, Black Welsh, Caribbean or African: African'',
        observation = 50\<rparr>,
      \<lparr>geo_code = ''E02000001'', ethnic_group = ''White: English'', observation = 450\<rparr>] =
   [\<lparr>msoa = ''E02000001'', black_count = 50, population = 500\<rparr>]"
proof -
  let ?obs = "[\<lparr>sex_label = ''All persons'', geography_id = ''E02000001'',
        ethnic_label = ''All ethnic groups'', obs_count = Some 500\<rparr>,
      \<lparr>sex_label = ''All persons'', geography_id = ''E02000001'',
        ethnic_label = ''Black, Black British, Black Welsh, Caribbean or African'', obs_count = Some 50\<rparr>,
      \<lparr>sex_label = ''Female'', geography_id = ''E02000001'',
        ethnic_label = ''All ethnic groups'', obs_count = Some 260\<rparr>]"
  let ?df = "[\<lparr>geo_code = ''E02000001'',
        ethnic_group = ''Black, Black British, Black Welsh, Caribbean or African: African'',
        observation = 50\<rparr>,
      \<lparr>geo_code = ''E02000001'', ethnic_group = ''White: English'', observation = 450\<rparr>]"
  have same: "same_area_counts ?obs ?df" by (simp add: eval_defs)
  have ints: "\<forall>ob \<in> set ?obs. sex_label ob = ''All persons'' \<longrightarrow> obs_count ob \<noteq> None"
    by simp
  have some: "\<exists>ob \<in> set ?obs. sex_label ob = ''All persons''" by simp
  have d: "all_persons_data ?obs = [(''E02000001'', ''All ethnic groups'', 500),
     (''E02000001'', ''Black, Black British, Black Welsh, Caribbean or African'', 50)]"
    by (simp add: all_persons_data_def)
  have bdistinct: "distinct (map fst (select_group black_label (all_persons_data ?obs)))"
    unfolding d by (simp add: select_group_def black_label_def)
  have tdistinct: "distinct (map fst (select_group ''All ethnic groups'' (all_persons_data ?obs)))"
    unfolding d by (simp add: select_group_def)
  have bareas: "fst ` set (select_group black_label (all_persons_data ?obs)) =
                 geo_code ` set (filter (\<lambda>r. is_msoa r \<and> is_black r) ?df)"
    unfolding d by (simp add: select_group_def black_label_def is_msoa_def is_black_def
        startswith_def black_prefix_def)
  have tareas: "fst ` set (select_group black_label (all_persons_data ?obs)) \<subseteq>
                 fst ` set (select_group ''All ethnic groups'' (all_persons_data ?obs))"
    unfolding d by (simp add: select_group_def black_label_def)
  have cells: "\<forall>r \<in> set ?df. - 9223372036854775808 \<le> observation r \<and> observation r < 9223372036854775808"
    by simp
  have k: "geo_code ` set (filter (\<lambda>r. is_msoa r \<and> is_black r) ?df) = {''E02000001''}"
    by (simp add: eval_defs)
  have inrange: "\<forall>a \<in> geo_code ` set (filter (\<lambda>r. is_msoa r \<and> is_black r) ?df).
       - 9223372036854775808 \<le> sum_list (map observation (filter (\<lambda>r. geo_code r = a \<and> is_black r) ?df)) \<and>
       sum_list (map observation (filter (\<lambda>r. geo_code r = a \<and> is_black r) ?df)) < 9223372036854775808 \<and>
       - 9223372036854775808 \<le> sum_list (map observation (filter (\<lambda>r. geo_code r = a) ?df)) \<and>
       sum_list (map observation (filter (\<lambda>r. geo_code r = a) ?df)) < 9223372036854775808"
    unfolding k by (simp add: is_black_def startswith_def black_prefix_def)
  have r: "process_census_data ?df = [\<lparr>msoa = ''E02000001'', black_count = 50, population = 500\<rparr>]"
    by (simp add: eval_defs)
  have p: "process_observations ?obs =
      Inr [\<lparr>msoa = ''E02000001'', black_count = 50, population = 500\<rparr>]"
    by (simp add: eval_defs)
  from paths_agree [OF same ints some bdistinct tdistinct bareas tareas cells inrange]
  obtain rows where res: "process_observations ?obs = Inr rows"
    and ord: "sorted (map msoa rows) \<longrightarrow> rows = process_census_data ?df"
    by blast
  from res p have "rows = [\<lparr>msoa = ''E02000001'', black_count = 50, population = 500\<rparr>]"
    by simp
  then have s: "sorted (map msoa rows)" by simp
  with ord have "rows = process_census_data ?df" by simp
  moreover from cells have "list_all (\<lambda>r. - 9223372036854775808 \<le> observation r \<and> observation r < 9223372036854775808) ?df"
    unfolding list_all_iff .
  ultimately show ?thesis using res s same r by blast
qed

text \<open>
  C9. The result of processing the observations is the result of processing the
  observations whose sex label is exactly \<open>All persons\<close>: every other observation is
  skipped, whatever it holds, and adds nothing to the population or to the count.
\<close>

theorem only_all_persons_counted:
  "process_observations obs =
   process_observations (filter (\<lambda>ob. sex_label ob = ''All persons'') obs)"
  by (simp add: process_observations_def collect_filter)

theorem only_all_persons_counted_witness:
  "process_observations
     [\<lparr>sex_label = ''Female'', geography_id = ''E02000001'',
        ethnic_label = ''All ethnic groups'', obs_count = Some 260\<rparr>,
      \<lparr>sex_label = ''All persons'', geography_id = ''E02000001'',
        ethnic_label = ''All ethnic groups'', obs_count = Some 500\<rparr>,
      \<lparr>sex_label = ''Male'', geography_id = ''E02000001'',
        ethnic_label = ''Black, Black British, Black Welsh, Caribbean or African'', obs_count = None\<rparr>,
      \<lparr>sex_label = ''All persons'', geography_id = ''E02000001'',
        ethnic_label = ''Black, Black British, Black Welsh, Caribbean or African'', obs_count = Some 50\<rparr>]
   = Inr [\<lparr>msoa = ''E02000001'', black_count = 50, population = 500\<rparr>]"
proof -
  let ?obs = "[\<lparr>sex_label = ''Female'', geography_id = ''E02000001'',
        ethnic_label = ''All ethnic groups'', obs_count = Some 260\<rparr>,
      \<lparr>sex_label = ''All persons'', geography_id = ''E02000001'',
        ethnic_label = ''All ethnic groups'', obs_count = Some 500\<rparr>,
      \<lparr>sex_label = ''Male'', geography_id = ''E02000001'',
        ethnic_label = ''Black, Black British, Black Welsh, Caribbean or African'', obs_count = None\<rparr>,
      \<lparr>sex_label = ''All persons'', geography_id = ''E02000001'',
        ethnic_label = ''Black, Black British, Black Welsh, Caribbean or African'', obs_count = Some 50\<rparr>]"
  have "process_observations (filter (\<lambda>ob. sex_label ob = ''All persons'') ?obs) =
      Inr [\<lparr>msoa = ''E02000001'', black_count = 50, population = 500\<rparr>]"
    by (simp add: eval_defs)
  with only_all_persons_counted [of ?obs] show ?thesis by simp
qed

text \<open>
  C10. The areas of the result are exactly the areas with an \<open>E02\<close> code that have at
  least one row whose category starts with the group's prefix, each once; an area all of
  whose rows fail the prefix test is not in the result.
\<close>

theorem output_areas:
  "msoa ` set (process_census_data df) = geo_code ` set (filter (\<lambda>r. is_msoa r \<and> is_black r) df) \<and>
   distinct (map msoa (process_census_data df)) \<and>
   ((\<forall>r \<in> set df. geo_code r = a \<longrightarrow> \<not> is_black r) \<longrightarrow> a \<notin> msoa ` set (process_census_data df))"
proof -
  let ?S = "geo_code ` set (filter (\<lambda>r. is_msoa r \<and> is_black r) df)"
  have fin: "finite ?S" by simp
  have m: "map msoa (process_census_data df) = sorted_list_of_set ?S"
    unfolding process_census_data_eq by (simp add: o_def del: set_filter)
  have "msoa ` set (process_census_data df) = set (map msoa (process_census_data df))" by simp
  also have "\<dots> = ?S" unfolding m using fin by (simp del: set_filter)
  finally have 1: "msoa ` set (process_census_data df) = ?S" .
  have 2: "distinct (map msoa (process_census_data df))" unfolding m by simp
  have 3: "(\<forall>r \<in> set df. geo_code r = a \<longrightarrow> \<not> is_black r) \<longrightarrow> a \<notin> msoa ` set (process_census_data df)"
    unfolding 1 by auto
  from 1 2 3 show ?thesis by blast
qed

theorem output_areas_witness:
  "filter (\<lambda>r. geo_code r = ''E02000002'' \<and> is_black r)
     [\<lparr>geo_code = ''E02000001'',
        ethnic_group = ''Black, Black British, Black Welsh, Caribbean or African: African'',
        observation = 50\<rparr>,
      \<lparr>geo_code = ''E02000001'', ethnic_group = ''White: English'', observation = 450\<rparr>,
      \<lparr>geo_code = ''E02000002'', ethnic_group = ''White: English'', observation = 700\<rparr>] = [] \<and>
   ''E02000002'' \<notin> msoa ` set (process_census_data
     [\<lparr>geo_code = ''E02000001'',
        ethnic_group = ''Black, Black British, Black Welsh, Caribbean or African: African'',
        observation = 50\<rparr>,
      \<lparr>geo_code = ''E02000001'', ethnic_group = ''White: English'', observation = 450\<rparr>,
      \<lparr>geo_code = ''E02000002'', ethnic_group = ''White: English'', observation = 700\<rparr>]) \<and>
   ''E02000001'' \<in> msoa ` set (process_census_data
     [\<lparr>geo_code = ''E02000001'',
        ethnic_group = ''Black, Black British, Black Welsh, Caribbean or African: African'',
        observation = 50\<rparr>,
      \<lparr>geo_code = ''E02000001'', ethnic_group = ''White: English'', observation = 450\<rparr>,
      \<lparr>geo_code = ''E02000002'', ethnic_group = ''White: English'', observation = 700\<rparr>])"
proof -
  let ?df = "[\<lparr>geo_code = ''E02000001'',
        ethnic_group = ''Black, Black British, Black Welsh, Caribbean or African: African'',
        observation = 50\<rparr>,
      \<lparr>geo_code = ''E02000001'', ethnic_group = ''White: English'', observation = 450\<rparr>,
      \<lparr>geo_code = ''E02000002'', ethnic_group = ''White: English'', observation = 700\<rparr>]"
  have h: "\<forall>r \<in> set ?df. geo_code r = ''E02000002'' \<longrightarrow> \<not> is_black r"
    by (simp add: is_black_def startswith_def black_prefix_def)
  have f: "filter (\<lambda>r. geo_code r = ''E02000002'' \<and> is_black r) ?df = []"
    by (simp add: is_black_def startswith_def black_prefix_def)
  have k: "geo_code ` set (filter (\<lambda>r. is_msoa r \<and> is_black r) ?df) = {''E02000001''}"
    by (simp add: eval_defs)
  from output_areas [of ?df "''E02000002''"] h f k show ?thesis by simp
qed

end
